theory Spec2Isabelle
  imports Complex_Main "HOL-Library.Word"
begin

section \<open>Data model of retry.go\<close>

text \<open>
  Go's \<open>int\<close> is a 64-bit two's complement integer on the usual targets (amd64, arm64), and
  \<open>time.Duration\<close> is \<open>int64\<close> (nanoseconds) everywhere. Both are 64-bit words here:
  \<open>+\<close> wraps as Go's does, and the comparisons of the source are the signed ones
  (\<open><s\<close>, \<open>\<le>s\<close>).
\<close>

type_synonym go_int = "64 word"
type_synonym Duration = "64 word"

definition MaxInt :: go_int where
  "MaxInt = 9223372036854775807"

definition MinInt :: go_int where
  "MinInt = 9223372036854775808"

text \<open>Constants of package \<open>time\<close> and of package \<open>net/http\<close> that retry.go names.\<close>

definition Millisecond :: Duration where
  "Millisecond = 1000000"

definition Second :: Duration where
  "Second = 1000000000"

definition StatusRequestTimeout :: go_int where
  "StatusRequestTimeout = 408"

definition StatusTooManyRequests :: go_int where
  "StatusTooManyRequests = 429"

definition StatusInternalServerError :: go_int where
  "StatusInternalServerError = 500"

definition StatusBadGateway :: go_int where
  "StatusBadGateway = 502"

definition StatusServiceUnavailable :: go_int where
  "StatusServiceUnavailable = 503"

definition StatusGatewayTimeout :: go_int where
  "StatusGatewayTimeout = 504"

text \<open>
  \<open>CalculateRetryDelay\<close> computes in \<open>float64\<close>. The four operations the source uses are
  parameters of the model, and \<open>'f\<close> is the type of float64 values, so that the theorems
  about the executor, which quantify over \<open>fl\<close>, hold whatever the arithmetic does:
  \<^item> \<open>of_int64 fl x\<close> is the conversion \<open>float64(x)\<close> of an \<open>int\<close> or a \<open>Duration\<close>;
  \<^item> \<open>fmul fl x y\<close> is \<open>x * y\<close>;
  \<^item> \<open>to_int64 fl x\<close> is the conversion \<open>time.Duration(x)\<close>;
  \<^item> \<open>lit fl q\<close> is the float64 value of the numeric constant \<open>q\<close> of the source text.
\<close>

record 'f float64_ops =
  of_int64 :: "64 word \<Rightarrow> 'f"
  fmul :: "'f \<Rightarrow> 'f \<Rightarrow> 'f"
  to_int64 :: "'f \<Rightarrow> 64 word"
  lit :: "rat \<Rightarrow> 'f"

subsection \<open>The arithmetic of the program: binary64\<close>

text \<open>
  A float64 value is a finite number, an infinity or a NaN. A finite value is kept as the
  rational number it denotes. The sign of a zero is not kept: \<open>CalculateRetryDelay\<close> only
  multiplies and converts to an integer, and there the two zeros behave alike.
\<close>

datatype float64 = Finite rat | PosInf | NegInf | NaN

text \<open>
  \<open>bit_length n\<close> is the number of binary digits of \<open>n\<close>, \<open>pow2 e\<close> is \<open>2\<close> to the power
  \<open>e\<close>, and \<open>ilog2 a\<close>, for a positive \<open>a\<close>, is the exponent \<open>e\<close> with
  \<open>2 ^ e \<le> a < 2 ^ (e + 1)\<close>.
\<close>

fun bit_length :: "nat \<Rightarrow> nat" where
  "bit_length n = (if n = 0 then 0 else Suc (bit_length (n div 2)))"

definition pow2 :: "int \<Rightarrow> rat" where
  "pow2 e = (if 0 \<le> e then 2 ^ nat e else 1 / 2 ^ nat (- e))"

definition ilog2 :: "rat \<Rightarrow> int" where
  "ilog2 a = (if 1 \<le> a then int (bit_length (nat \<lfloor>a\<rfloor>)) - 1
              else - int (bit_length (nat (\<lceil>1 / a\<rceil> - 1))))"

text \<open>Rounding to the nearest integer, a tie going to the even one.\<close>

definition round_even :: "rat \<Rightarrow> int" where
  "round_even x =
     (let f = \<lfloor>x\<rfloor>; r = x - of_int f
      in if r < 1 / 2 then f else if 1 / 2 < r then f + 1 else if even f then f else f + 1)"

text \<open>
  \<open>round64 q\<close> is the float64 value of the real number \<open>q\<close>: the nearest number with a
  significand of 53 binary digits, ties to even. The last digit of the significand has the
  weight \<open>2 ^ (e - 52)\<close>, where \<open>e\<close> is the exponent of \<open>q\<close> and at least \<open>- 1022\<close> (below
  that the numbers are subnormal), and a result that reaches \<open>2 ^ 1024\<close> is an infinity.
\<close>

definition round64 :: "rat \<Rightarrow> float64" where
  "round64 q =
     (if q = 0 then Finite 0
      else let a = \<bar>q\<bar>;
               e = max (ilog2 a) (- 1022);
               v = of_int (round_even (a / pow2 (e - 52))) * pow2 (e - 52)
           in if 2 ^ 1024 \<le> v then (if 0 < q then PosInf else NegInf)
              else Finite (if 0 < q then v else - v))"

text \<open>The product: the exact product, rounded; the cases of IEEE 754 for infinities and NaN.\<close>

fun fmul64 :: "float64 \<Rightarrow> float64 \<Rightarrow> float64" where
  "fmul64 NaN y = NaN"
| "fmul64 x NaN = NaN"
| "fmul64 (Finite x) (Finite y) = round64 (x * y)"
| "fmul64 (Finite x) PosInf = (if x = 0 then NaN else if 0 < x then PosInf else NegInf)"
| "fmul64 (Finite x) NegInf = (if x = 0 then NaN else if 0 < x then NegInf else PosInf)"
| "fmul64 PosInf (Finite y) = (if y = 0 then NaN else if 0 < y then PosInf else NegInf)"
| "fmul64 NegInf (Finite y) = (if y = 0 then NaN else if 0 < y then NegInf else PosInf)"
| "fmul64 PosInf PosInf = PosInf"
| "fmul64 PosInf NegInf = NegInf"
| "fmul64 NegInf PosInf = NegInf"
| "fmul64 NegInf NegInf = PosInf"

text \<open>
  The conversion of a float64 to \<open>int64\<close> discards the fraction. When the truncated value
  is not an \<open>int64\<close>, and for an infinity or a NaN, Go leaves the result to the
  implementation: it is the parameter \<open>oor\<close> here. On amd64 the instruction gives the
  smallest \<open>int64\<close> in all these cases, which is \<open>amd64\<close>.
\<close>

definition trunc_rat :: "rat \<Rightarrow> int" where
  "trunc_rat q = (if 0 \<le> q then \<lfloor>q\<rfloor> else \<lceil>q\<rceil>)"

fun duration_of :: "(float64 \<Rightarrow> 64 word) \<Rightarrow> float64 \<Rightarrow> 64 word" where
  "duration_of oor (Finite q) =
     (if - (2 ^ 63) \<le> trunc_rat q \<and> trunc_rat q < 2 ^ 63 then word_of_int (trunc_rat q)
      else oor (Finite q))"
| "duration_of oor x = oor x"

definition amd64 :: "float64 \<Rightarrow> 64 word" where
  "amd64 x = MinInt"

definition binary64 :: "(float64 \<Rightarrow> 64 word) \<Rightarrow> float64 float64_ops" where
  "binary64 oor = \<lparr> of_int64 = (\<lambda>x. round64 (of_int (sint x))), fmul = fmul64,
     to_int64 = duration_of oor, lit = round64 \<rparr>"

subsection \<open>Exact arithmetic\<close>

text \<open>
  A second instance computes on rationals without rounding and converts by truncation,
  reduced modulo \<open>2 ^ 64\<close>. It agrees with binary64 only where no product is rounded and
  no conversion is out of range. It is used only to run the executor on the policies of the
  repository's tests, whose multiplier is 1.0 and whose delays are whole milliseconds:
  there it gives the delays of binary64 (lemma \<open>exact_ops_on_tests\<close>), and a run that
  makes no wait does not depend on the arithmetic at all. Nothing about
  \<open>CalculateRetryDelay\<close> itself is derived from it.
\<close>

definition exact_ops :: "rat float64_ops" where
  "exact_ops = \<lparr> of_int64 = (\<lambda>x. of_int (sint x)), fmul = (\<lambda>x y. x * y),
     to_int64 = (\<lambda>q. word_of_int (trunc_rat q)), lit = (\<lambda>q. q) \<rparr>"

record 'f RetryOptions =
  MaxRetries :: go_int
  RetryDelay :: Duration
  MaxRetryDelay :: Duration
  BackoffMultiplier :: 'f
  RetryableStatusCodes :: "go_int list"

text \<open>
  Errors. \<open>External\<close> is an error value made outside this package: the error returned by
  the transport, or \<open>ctx.Err()\<close>. The other constructors are the five \<open>fmt.Errorf\<close> calls
  of \<open>DoRequestWithRetry\<close>, one each, in the order of the source.
\<close>

datatype error =
    External string
  | FailedToExecute error
  | FailedToExecuteAfterRetries error
  | ServerError go_int
  | FailedAfterRetries error
  | NoAttemptsMade

record Response =
  StatusCode :: go_int
  Body :: string

section \<open>The retry policy\<close>

definition DefaultRetryOptions :: "'f float64_ops \<Rightarrow> 'f RetryOptions" where
  "DefaultRetryOptions fl = \<lparr>
     MaxRetries = 3,
     RetryDelay = 100 * Millisecond,
     MaxRetryDelay = 2 * Second,
     BackoffMultiplier = lit fl 2,
     RetryableStatusCodes = [
       StatusRequestTimeout,
       StatusTooManyRequests,
       StatusInternalServerError,
       StatusBadGateway,
       StatusServiceUnavailable,
       StatusGatewayTimeout] \<rparr>"

text \<open>The \<open>range\<close> loop of \<open>IsRetryableError\<close> over the slice of status codes.\<close>

primrec code_in_list :: "go_int \<Rightarrow> go_int list \<Rightarrow> bool" where
  "code_in_list statusCode [] = False"
| "code_in_list statusCode (code # codes) =
     (if statusCode = code then True else code_in_list statusCode codes)"

definition IsRetryableError :: "'f RetryOptions \<Rightarrow> error option \<Rightarrow> go_int \<Rightarrow> bool" where
  "IsRetryableError r err statusCode =
     (if MaxRetries r = 0 then False
      else if err \<noteq> None then True
      else code_in_list statusCode (RetryableStatusCodes r))"

definition CalculateRetryDelay :: "'f float64_ops \<Rightarrow> 'f RetryOptions \<Rightarrow> go_int \<Rightarrow> Duration" where
  "CalculateRetryDelay fl r attempt =
     (let delay = to_int64 fl
            (fmul fl (fmul fl (of_int64 fl (RetryDelay r)) (of_int64 fl (attempt + 1)))
               (BackoffMultiplier r))
      in if MaxRetryDelay r <s delay then MaxRetryDelay r else delay)"

section \<open>The retry executor\<close>

text \<open>
  The world outside \<open>DoRequestWithRetry\<close>, as two oracles.
  \<^item> \<open>Do w k\<close> is what the \<open>k\<close>-th call of \<open>c.Do(req)\<close> in this run returns (\<open>k\<close> from 0):
    \<open>Inl err\<close> for a non-nil error, \<open>Inr resp\<close> for a response with a nil error
    (\<open>http.Client.Do\<close> returns a usable response exactly when the error is nil).
  \<^item> \<open>CtxDone w j\<close> decides the \<open>select\<close> of the \<open>j\<close>-th backoff wait of this run (\<open>j\<close> from
    0): \<open>Some e\<close> when the case \<open><-ctx.Done()\<close> is taken, \<open>e\<close> being \<open>ctx.Err()\<close>, and \<open>None\<close>
    when the case \<open><-time.After(delay)\<close> is taken.
  The two cases of a \<open>select\<close> may be ready together, and Go then picks either one: the
  oracle stands for that choice too. The request and the context are values the caller
  owns (a request \<open>c.Do\<close> accepts, a non-nil context); the function only passes them on,
  and the oracles answer for them.
  What the run does to the world is recorded in a trace of events, oldest first: each call
  of \<open>c.Do\<close>, each \<open>resp.Body.Close()\<close>, each wait with its delay, ended by the timer
  (\<open>Slept\<close>) or by the context (\<open>Cancelled\<close>).
\<close>

record World =
  Do :: "nat \<Rightarrow> string + Response"
  CtxDone :: "nat \<Rightarrow> string option"

datatype event =
    Called
  | Closed Response
  | Slept Duration
  | Cancelled Duration

fun is_call :: "event \<Rightarrow> bool" where
  "is_call Called = True"
| "is_call _ = False"

fun is_wait :: "event \<Rightarrow> bool" where
  "is_wait (Slept d) = True"
| "is_wait (Cancelled d) = True"
| "is_wait _ = False"

definition invocations :: "event list \<Rightarrow> nat" where
  "invocations tr = length (filter is_call tr)"

definition waits :: "event list \<Rightarrow> nat" where
  "waits tr = length (filter is_wait tr)"

text \<open>The variables of the function that outlive one iteration, and the trace.\<close>

record state =
  lastErr :: "error option"
  trace :: "event list"

text \<open>
  The \<open>select\<close> of lines 84 to 88, with the delay of line 81: \<open>Some e\<close> is the return of
  \<open>ctx.Err()\<close> at line 86.
\<close>

definition backoff_wait ::
  "'f float64_ops \<Rightarrow> 'f RetryOptions \<Rightarrow> World \<Rightarrow> state \<Rightarrow> go_int \<Rightarrow> string option \<times> state" where
  "backoff_wait fl r w st attempt =
     (let delay = CalculateRetryDelay fl r (attempt - 1) in
      case CtxDone w (waits (trace st)) of
        Some e \<Rightarrow> (Some e, st\<lparr>trace := trace st @ [Cancelled delay]\<rparr>)
      | None \<Rightarrow> (None, st\<lparr>trace := trace st @ [Slept delay]\<rparr>))"

text \<open>
  One iteration of the \<open>for\<close> loop (lines 79 to 113): it ends in a \<open>return\<close> or in a
  \<open>continue\<close>.
\<close>

datatype step =
    Return "error + Response" state
  | Continue state

definition loop_body ::
  "'f float64_ops \<Rightarrow> 'f RetryOptions \<Rightarrow> World \<Rightarrow> state \<Rightarrow> go_int \<Rightarrow> step" where
  "loop_body fl r w st attempt =
     (case (if 0 <s attempt then backoff_wait fl r w st attempt else (None, st)) of
        (Some e, st1) \<Rightarrow> Return (Inl (External e)) st1
      | (None, st1) \<Rightarrow>
          (case Do w (invocations (trace st1)) of
             Inl err \<Rightarrow>
               (let st2 = st1\<lparr>lastErr := Some (External err), trace := trace st1 @ [Called]\<rparr> in
                if \<not> IsRetryableError r (Some (External err)) 0
                then Return (Inl (FailedToExecute (External err))) st2
                else if MaxRetries r \<le>s attempt
                then Return (Inl (FailedToExecuteAfterRetries (the (lastErr st2)))) st2
                else Continue st2)
           | Inr resp \<Rightarrow>
               (let st2 = st1\<lparr>trace := trace st1 @ [Called]\<rparr> in
                if IsRetryableError r None (StatusCode resp) \<and> attempt <s MaxRetries r
                then Continue (st2\<lparr>lastErr := Some (ServerError (StatusCode resp)),
                                    trace := trace st2 @ [Closed resp]\<rparr>)
                else Return (Inr resp) st2)))"

text \<open>
  The loop of line 78. \<open>None\<close> is the exit through the loop condition, \<open>Some res\<close> a
  \<open>return\<close> inside the body.
\<close>

function retry_loop ::
  "'f float64_ops \<Rightarrow> 'f RetryOptions \<Rightarrow> World \<Rightarrow> go_int \<Rightarrow> state \<Rightarrow> go_int
     \<Rightarrow> (error + Response) option \<times> state" where
  "retry_loop fl r w maxAttempts st attempt =
     (if attempt <s maxAttempts
      then (case loop_body fl r w st attempt of
              Return res st' \<Rightarrow> (Some res, st')
            | Continue st' \<Rightarrow> retry_loop fl r w maxAttempts st' (attempt + 1))
      else (None, st))"
  by pat_completeness auto

text \<open>
  Inside the loop \<open>attempt\<close> is below \<open>maxAttempts\<close>, hence below the largest \<open>int\<close>: the
  increment of the \<open>for\<close> statement does not wrap, and the distance to \<open>maxAttempts\<close> shrinks.
\<close>

termination
proof (relation "measure (\<lambda>(fl, r, w, maxAttempts, st, attempt). nat (sint maxAttempts - sint attempt))")
  show "wf (measure (\<lambda>(fl :: 'a float64_ops, r :: 'a RetryOptions, w :: World, maxAttempts :: go_int,
              st :: state, attempt :: go_int). nat (sint maxAttempts - sint attempt)))"
    by simp
next
  fix fl :: "'a float64_ops" and r :: "'a RetryOptions" and w :: World
    and maxAttempts attempt :: go_int and st x2 :: state
  assume lt: "attempt <s maxAttempts"
  have below: "sint attempt < sint maxAttempts" using lt by (simp add: word_sless_alt)
  moreover have "sint maxAttempts < 2 ^ 63" using sint_lt [of maxAttempts] by simp
  moreover have "- (2 ^ 63) \<le> sint attempt" using sint_ge [of attempt] by simp
  ultimately have "sint (attempt + 1) = sint attempt + 1"
    by (simp add: sint_word_ariths signed_take_bit_int_eq_self)
  then show "((fl, r, w, maxAttempts, x2, attempt + 1), (fl, r, w, maxAttempts, st, attempt))
      \<in> measure (\<lambda>(fl, r, w, maxAttempts, st, attempt). nat (sint maxAttempts - sint attempt))"
    using below by simp
qed

text \<open>
  \<open>DoRequestWithRetry\<close>: a nil \<open>retryOpts\<close> is \<open>None\<close>. The result is the pair the Go
  function returns, as a sum (\<open>Inl\<close> the error, \<open>Inr\<close> the response with a nil error),
  together with the trace of the run.
\<close>

definition DoRequestWithRetry ::
  "'f float64_ops \<Rightarrow> World \<Rightarrow> 'f RetryOptions option \<Rightarrow> (error + Response) \<times> event list" where
  "DoRequestWithRetry fl w retryOpts =
     (let r = (case retryOpts of None \<Rightarrow> DefaultRetryOptions fl | Some r' \<Rightarrow> r');
          maxAttempts = MaxRetries r + 1
      in case retry_loop fl r w maxAttempts \<lparr>lastErr = None, trace = []\<rparr> 0 of
           (Some res, st) \<Rightarrow> (res, trace st)
         | (None, st) \<Rightarrow>
             (case lastErr st of
                Some e \<Rightarrow> (Inl (FailedAfterRetries e), trace st)
              | None \<Rightarrow> (Inl NoAttemptsMade, trace st)))"

text \<open>
  The trace at the moment \<open>c.Do\<close> is called in an iteration whose wait, if it had one, ended
  with the timer.
\<close>

definition after_wait :: "'f float64_ops \<Rightarrow> 'f RetryOptions \<Rightarrow> state \<Rightarrow> go_int \<Rightarrow> event list" where
  "after_wait fl r st attempt =
     (if 0 <s attempt then trace st @ [Slept (CalculateRetryDelay fl r (attempt - 1))]
      else trace st)"

text \<open>
  The loop invariant on traces used for the backoff waits, in two parts. Every wait in the
  trace comes after at least one call and at most \<open>MaxRetries\<close> calls, its delay is the one
  \<open>CalculateRetryDelay\<close> gives for the number of calls before it, less one, and a wait that
  the timer ended is followed at once by a call. Conversely, the first call is the first
  event of the trace, and every later call comes immediately after a wait that the timer
  ended, of the delay \<open>CalculateRetryDelay\<close> gives for the number of calls before it, less
  one.
\<close>

definition backoff_ok :: "'f float64_ops \<Rightarrow> 'f RetryOptions \<Rightarrow> event list \<Rightarrow> bool" where
  "backoff_ok fl r tr =
     (\<forall>i<length tr.
        (\<forall>d. tr ! i = Slept d \<or> tr ! i = Cancelled d \<longrightarrow>
           1 \<le> invocations (take i tr) \<and>
           int (invocations (take i tr)) \<le> sint (MaxRetries r) \<and>
           d = CalculateRetryDelay fl r (of_nat (invocations (take i tr)) - 1) \<and>
           (tr ! i = Slept d \<longrightarrow> Suc i < length tr \<and> tr ! Suc i = Called)) \<and>
        (tr ! i = Called \<longrightarrow>
           (if invocations (take i tr) = 0 then i = 0
            else 1 \<le> i \<and>
              tr ! (i - 1)
                = Slept (CalculateRetryDelay fl r (of_nat (invocations (take i tr)) - 1)))))"

section \<open>Inputs of the repository's tests\<close>

text \<open>
  The policy of the subtests of \<open>TestDoRequestWithRetry\<close> (1ms base delay, 10ms ceiling,
  multiplier 1.0) and that of the cancellation subtest (100ms, 1s, 1.0); servers that
  answer every request with one status, that refuse every connection, and that answer
  503 twice and 200 from then on; a context that is cancelled during the first wait.
\<close>

definition test_policy :: "go_int \<Rightarrow> go_int list \<Rightarrow> rat RetryOptions" where
  "test_policy n codes = \<lparr> MaxRetries = n, RetryDelay = 1 * Millisecond,
     MaxRetryDelay = 10 * Millisecond, BackoffMultiplier = 1, RetryableStatusCodes = codes \<rparr>"

definition slow_policy :: "rat RetryOptions" where
  "slow_policy = \<lparr> MaxRetries = 5, RetryDelay = 100 * Millisecond,
     MaxRetryDelay = 1 * Second, BackoffMultiplier = 1,
     RetryableStatusCodes = [StatusServiceUnavailable] \<rparr>"

definition status_response :: "go_int \<Rightarrow> Response" where
  "status_response code = \<lparr> StatusCode = code, Body = [] \<rparr>"

definition always_status :: "go_int \<Rightarrow> World" where
  "always_status code = \<lparr> Do = (\<lambda>k. Inr (status_response code)), CtxDone = (\<lambda>j. None) \<rparr>"

definition always_refused :: World where
  "always_refused = \<lparr> Do = (\<lambda>k. Inl ''connection refused''), CtxDone = (\<lambda>j. None) \<rparr>"

definition unavailable_twice :: World where
  "unavailable_twice = \<lparr> Do = (\<lambda>k. if k < 2 then Inr (status_response 503)
       else Inr (status_response 200)), CtxDone = (\<lambda>j. None) \<rparr>"

definition cancelled_in_first_wait :: World where
  "cancelled_in_first_wait = \<lparr> Do = (\<lambda>k. Inr (status_response 503)),
     CtxDone = (\<lambda>j. if j = 0 then Some ''context canceled'' else None) \<rparr>"

text \<open>
  A policy of the tests as the program holds it: the constant of its multiplier is a
  float64.
\<close>

definition as_binary64 :: "rat RetryOptions \<Rightarrow> float64 RetryOptions" where
  "as_binary64 r = \<lparr> MaxRetries = MaxRetries r, RetryDelay = RetryDelay r,
     MaxRetryDelay = MaxRetryDelay r, BackoffMultiplier = round64 (BackoffMultiplier r),
     RetryableStatusCodes = RetryableStatusCodes r \<rparr>"

declare retry_loop.simps [simp del]
declare bit_length.simps [simp del]

section \<open>Arithmetic of the attempt counter\<close>

lemma sint_succ_below:
  fixes a b :: "64 word"
  assumes "a <s b"
  shows "sint (a + 1) = sint a + 1"
proof -
  have "sint a < sint b" using assms by (simp add: word_sless_alt)
  moreover have "sint b < 2 ^ 63" using sint_lt [of b] by simp
  moreover have "- (2 ^ 63) \<le> sint a" using sint_ge [of a] by simp
  ultimately show ?thesis
    by (simp add: sint_word_ariths signed_take_bit_int_eq_self)
qed

lemma sint_plus1:
  fixes x :: "64 word"
  shows "sint (x + 1) = (if x = MaxInt then - (2 ^ 63) else sint x + 1)"
proof (cases "x = MaxInt")
  case True
  then show ?thesis by (simp add: MaxInt_def)
next
  case False
  have "sint x \<noteq> 2 ^ 63 - 1"
  proof
    assume "sint x = 2 ^ 63 - 1"
    then have "sint x = sint MaxInt" by (simp add: MaxInt_def)
    then show False using False by (auto dest: signed_word_eqI)
  qed
  moreover have "sint x < 2 ^ 63" using sint_lt [of x] by simp
  moreover have "- (2 ^ 63) \<le> sint x" using sint_ge [of x] by simp
  ultimately show ?thesis using False
    by (simp add: sint_word_ariths signed_take_bit_int_eq_self)
qed

lemma MaxInt_wraps: "MaxInt + 1 = MinInt" "sint MaxInt = 2 ^ 63 - 1" "sint MinInt = - (2 ^ 63)"
  by (simp_all add: MaxInt_def MinInt_def)

lemma sint_bounds:
  fixes x :: "64 word"
  shows "- (2 ^ 63) \<le> sint x" "sint x < 2 ^ 63"
  using sint_ge [of x] sint_lt [of x] by simp_all

text \<open>
  Line 76 computes \<open>maxAttempts\<close> with a wrapping addition. The loop is skipped for a
  negative \<open>MaxRetries\<close>, and also for the largest \<open>int\<close>, whose successor is the smallest.
\<close>

lemma not_entered_iff:
  fixes M :: "64 word"
  shows "(\<not> 0 <s M + 1) = (M <s 0 \<or> M = MaxInt)"
proof (cases "M = MaxInt")
  case True
  then show ?thesis by (simp add: MaxInt_def word_sless_alt)
next
  case False
  then have "sint (M + 1) = sint M + 1" by (simp add: sint_plus1)
  then show ?thesis using False by (auto simp: word_sless_alt)
qed

lemma entered_budget:
  fixes a M :: "64 word"
  assumes "a <s M + 1"
  shows "M \<noteq> MaxInt" "sint (M + 1) = sint M + 1" "sint a \<le> sint M"
proof -
  show ne: "M \<noteq> MaxInt"
  proof
    assume "M = MaxInt"
    then have "sint (M + 1) = - (2 ^ 63)" by (simp add: sint_plus1)
    then show False using assms sint_bounds(1) [of a] by (simp add: word_sless_alt)
  qed
  then show eq: "sint (M + 1) = sint M + 1" by (simp add: sint_plus1)
  show "sint a \<le> sint M" using assms eq by (simp add: word_sless_alt)
qed

lemma next_attempt_in_budget:
  fixes a M :: "64 word"
  assumes "a <s M + 1" "a <s M"
  shows "a + 1 <s M + 1"
proof -
  have "sint (a + 1) = sint a + 1" using assms(2) by (rule sint_succ_below)
  moreover have "sint (M + 1) = sint M + 1" using assms(1) by (rule entered_budget)
  moreover have "sint a < sint M" using assms(2) by (simp add: word_sless_alt)
  ultimately show ?thesis by (simp add: word_sless_alt)
qed

section \<open>One iteration\<close>

lemma invocations_simps [simp]:
  "invocations [] = 0"
  "invocations (tr @ [Called]) = Suc (invocations tr)"
  "invocations (tr @ [Closed resp]) = invocations tr"
  "invocations (tr @ [Slept d]) = invocations tr"
  "invocations (tr @ [Cancelled d]) = invocations tr"
  by (simp_all add: invocations_def)

lemma waits_simps [simp]:
  "waits [] = 0"
  "waits (tr @ [Called]) = waits tr"
  "waits (tr @ [Closed resp]) = waits tr"
  "waits (tr @ [Slept d]) = Suc (waits tr)"
  "waits (tr @ [Cancelled d]) = Suc (waits tr)"
  by (simp_all add: waits_def)

lemma invocations_after_wait [simp]:
  "invocations (after_wait fl r st attempt) = invocations (trace st)"
  by (simp add: after_wait_def)

text \<open>The six ways through the body, each with the state it leaves.\<close>

lemma loop_body_cases:
  fixes fl :: "'f float64_ops"
  obtains
    (cancelled) e where "0 <s attempt" "CtxDone w (waits (trace st)) = Some e"
      "loop_body fl r w st attempt = Return (Inl (External e))
         (st\<lparr>trace := trace st @ [Cancelled (CalculateRetryDelay fl r (attempt - 1))]\<rparr>)"
  | (not_retryable) err where "0 <s attempt \<longrightarrow> CtxDone w (waits (trace st)) = None"
      "Do w (invocations (trace st)) = Inl err" "MaxRetries r = 0"
      "loop_body fl r w st attempt = Return (Inl (FailedToExecute (External err)))
         \<lparr>lastErr = Some (External err), trace = after_wait fl r st attempt @ [Called]\<rparr>"
  | (exhausted) err where "0 <s attempt \<longrightarrow> CtxDone w (waits (trace st)) = None"
      "Do w (invocations (trace st)) = Inl err" "MaxRetries r \<noteq> 0" "MaxRetries r \<le>s attempt"
      "loop_body fl r w st attempt = Return (Inl (FailedToExecuteAfterRetries (External err)))
         \<lparr>lastErr = Some (External err), trace = after_wait fl r st attempt @ [Called]\<rparr>"
  | (retry_error) err where "0 <s attempt \<longrightarrow> CtxDone w (waits (trace st)) = None"
      "Do w (invocations (trace st)) = Inl err" "MaxRetries r \<noteq> 0" "attempt <s MaxRetries r"
      "loop_body fl r w st attempt = Continue
         \<lparr>lastErr = Some (External err), trace = after_wait fl r st attempt @ [Called]\<rparr>"
  | (retry_status) resp where "0 <s attempt \<longrightarrow> CtxDone w (waits (trace st)) = None"
      "Do w (invocations (trace st)) = Inr resp"
      "IsRetryableError r None (StatusCode resp)" "attempt <s MaxRetries r"
      "loop_body fl r w st attempt = Continue
         \<lparr>lastErr = Some (ServerError (StatusCode resp)),
          trace = after_wait fl r st attempt @ [Called, Closed resp]\<rparr>"
  | (response) resp where "0 <s attempt \<longrightarrow> CtxDone w (waits (trace st)) = None"
      "Do w (invocations (trace st)) = Inr resp"
      "\<not> (IsRetryableError r None (StatusCode resp) \<and> attempt <s MaxRetries r)"
      "loop_body fl r w st attempt = Return (Inr resp)
         \<lparr>lastErr = lastErr st, trace = after_wait fl r st attempt @ [Called]\<rparr>"
proof (cases "0 <s attempt \<and> CtxDone w (waits (trace st)) \<noteq> None")
  case True
  then show ?thesis
    using cancelled by (auto simp: loop_body_def backoff_wait_def)
next
  case nc: False
  show ?thesis
  proof (cases "Do w (invocations (trace st))")
    case (Inl err)
    then show ?thesis
      using nc not_retryable [of err] exhausted [of err] retry_error [of err]
      by (cases "MaxRetries r = 0"; cases "MaxRetries r \<le>s attempt")
         (auto simp: loop_body_def backoff_wait_def after_wait_def IsRetryableError_def Let_def
            word_sless_alt word_sle_eq)
  next
    case (Inr resp)
    then show ?thesis
      using nc retry_status [of resp] response [of resp]
      by (cases "IsRetryableError r None (StatusCode resp) \<and> attempt <s MaxRetries r")
         (auto simp: loop_body_def backoff_wait_def after_wait_def Let_def)
  qed
qed

lemma invocations_called_closed [simp]:
  "invocations (tr @ [Called, Closed resp]) = Suc (invocations tr)"
  "invocations (after_wait fl r st attempt @ [Called, Closed resp]) = Suc (invocations (trace st))"
  by (simp_all add: invocations_def after_wait_def)

section \<open>The loop\<close>

lemma loop_exit:
  "\<not> attempt <s maxAttempts \<Longrightarrow> retry_loop fl r w maxAttempts st attempt = (None, st)"
  by (subst retry_loop.simps) simp

lemma loop_return:
  "attempt <s maxAttempts \<Longrightarrow> loop_body fl r w st attempt = Return res st' \<Longrightarrow>
   retry_loop fl r w maxAttempts st attempt = (Some res, st')"
  by (subst retry_loop.simps) simp

lemma loop_continue:
  "attempt <s maxAttempts \<Longrightarrow> loop_body fl r w st attempt = Continue st' \<Longrightarrow>
   retry_loop fl r w maxAttempts st attempt = retry_loop fl r w maxAttempts st' (attempt + 1)"
  by (subst retry_loop.simps) simp

lemma run_no_attempts:
  "MaxRetries r <s 0 \<or> MaxRetries r = MaxInt \<Longrightarrow>
   DoRequestWithRetry fl w (Some r) = (Inl NoAttemptsMade, [])"
  using not_entered_iff [of "MaxRetries r"]
  by (simp add: DoRequestWithRetry_def loop_exit)

lemma run_trace:
  "DoRequestWithRetry fl w (Some r) = (res, tr) \<Longrightarrow>
   \<exists>ro st'. retry_loop fl r w (MaxRetries r + 1) \<lparr>lastErr = None, trace = []\<rparr> 0 = (ro, st')
     \<and> trace st' = tr
     \<and> (case ro of Some res' \<Rightarrow> res = res' | None \<Rightarrow> True)"
  by (auto simp: DoRequestWithRetry_def split: prod.splits option.splits)

lemma loop_entered_returns:
  "attempt <s MaxRetries r + 1 \<Longrightarrow>
   \<exists>res st'. retry_loop fl r w (MaxRetries r + 1) st attempt = (Some res, st')"
proof (induction fl r w "MaxRetries r + 1" st attempt rule: retry_loop.induct)
  case (1 fl r w st attempt)
  note entered = \<open>attempt <s MaxRetries r + 1\<close>
  show ?case
  proof (cases rule: loop_body_cases [of attempt w st fl r])
    case (retry_error err)
    have "attempt + 1 <s MaxRetries r + 1"
      using entered retry_error(4) by (rule next_attempt_in_budget)
    from "1.hyps" [OF entered retry_error(5) this] show ?thesis
      unfolding loop_continue [OF entered retry_error(5)] .
  next
    case (retry_status resp)
    have "attempt + 1 <s MaxRetries r + 1"
      using entered retry_status(4) by (rule next_attempt_in_budget)
    from "1.hyps" [OF entered retry_status(5) this] show ?thesis
      unfolding loop_continue [OF entered retry_status(5)] .
  next
    case (cancelled e)
    then show ?thesis using loop_return [OF entered] by blast
  next
    case (not_retryable err)
    then show ?thesis using loop_return [OF entered] by blast
  next
    case (exhausted err)
    then show ?thesis using loop_return [OF entered] by blast
  next
    case (response resp)
    then show ?thesis using loop_return [OF entered] by blast
  qed
qed

lemma loop_result_not_post_loop:
  "retry_loop fl r w maxAttempts st attempt = (Some res, st') \<Longrightarrow> res \<noteq> Inl (FailedAfterRetries e)"
proof (induction fl r w maxAttempts st attempt rule: retry_loop.induct)
  case (1 fl r w maxAttempts st attempt)
  show ?case
  proof (cases "attempt <s maxAttempts")
    case False
    then show ?thesis using "1.prems" by (simp add: loop_exit)
  next
    case entered: True
    show ?thesis
    proof (cases rule: loop_body_cases [of attempt w st fl r])
      case (retry_error err)
      then show ?thesis
        using "1.IH" [OF entered retry_error(5)] "1.prems" loop_continue [OF entered retry_error(5)]
        by simp
    next
      case (retry_status resp)
      then show ?thesis
        using "1.IH" [OF entered retry_status(5)] "1.prems" loop_continue [OF entered retry_status(5)]
        by simp
    qed (use "1.prems" in \<open>auto simp: loop_return [OF entered]\<close>)
  qed
qed

lemma loop_calls_mono:
  "retry_loop fl r w maxAttempts st attempt = (ro, st') \<Longrightarrow>
   invocations (trace st) \<le> invocations (trace st')"
proof (induction fl r w maxAttempts st attempt rule: retry_loop.induct)
  case (1 fl r w maxAttempts st attempt)
  show ?case
  proof (cases "attempt <s maxAttempts")
    case False
    then show ?thesis using "1.prems" by (simp add: loop_exit)
  next
    case entered: True
    show ?thesis
    proof (cases rule: loop_body_cases [of attempt w st fl r])
      case (retry_error err)
      then show ?thesis
        using "1.IH" [OF entered retry_error(5)] "1.prems" loop_continue [OF entered retry_error(5)]
        by simp
    next
      case (retry_status resp)
      then show ?thesis
        using "1.IH" [OF entered retry_status(5)] "1.prems" loop_continue [OF entered retry_status(5)]
        by simp
    qed (use "1.prems" in \<open>auto simp: loop_return [OF entered]\<close>)
  qed
qed

lemma loop_response_calls:
  assumes run: "retry_loop fl r w maxAttempts st attempt = (Some (Inr resp), st')"
  shows "invocations (trace st) < invocations (trace st')"
proof (cases "attempt <s maxAttempts")
  case False
  then show ?thesis using run by (simp add: loop_exit)
next
  case entered: True
  show ?thesis
  proof (cases rule: loop_body_cases [of attempt w st fl r])
    case (retry_error err)
    have "retry_loop fl r w maxAttempts
        \<lparr>lastErr = Some (External err), trace = after_wait fl r st attempt @ [Called]\<rparr>
        (attempt + 1) = (Some (Inr resp), st')"
      using run loop_continue [OF entered retry_error(5)] by simp
    from loop_calls_mono [OF this] show ?thesis by simp
  next
    case (retry_status resp')
    have "retry_loop fl r w maxAttempts
        \<lparr>lastErr = Some (ServerError (StatusCode resp')),
         trace = after_wait fl r st attempt @ [Called, Closed resp']\<rparr>
        (attempt + 1) = (Some (Inr resp), st')"
      using run loop_continue [OF entered retry_status(5)] by simp
    from loop_calls_mono [OF this] show ?thesis by simp
  qed (use run in \<open>auto simp: loop_return [OF entered]\<close>)
qed

lemma loop_budget:
  "\<lbrakk>retry_loop fl r w (MaxRetries r + 1) st attempt = (ro, st');
    int (invocations (trace st)) = sint attempt; attempt <s MaxRetries r + 1\<rbrakk> \<Longrightarrow>
   int (invocations (trace st')) \<le> sint (MaxRetries r) + 1"
proof (induction fl r w "MaxRetries r + 1" st attempt rule: retry_loop.induct)
  case (1 fl r w st attempt)
  note entered = \<open>attempt <s MaxRetries r + 1\<close>
  have s: "sint (attempt + 1) = sint attempt + 1"
    using entered by (rule sint_succ_below)
  note le = entered_budget(3) [OF entered]
  show ?case
  proof (cases rule: loop_body_cases [of attempt w st fl r])
    case (cancelled e)
    then show ?thesis
      using "1.prems"(1,2) loop_return [OF entered cancelled(3)] le by auto
  next
    case (not_retryable err)
    then show ?thesis
      using "1.prems"(1,2) loop_return [OF entered not_retryable(4)] le by auto
  next
    case (exhausted err)
    then show ?thesis
      using "1.prems"(1,2) loop_return [OF entered exhausted(5)] le by auto
  next
    case (response resp)
    then show ?thesis
      using "1.prems"(1,2) loop_return [OF entered response(4)] le by auto
  next
    case (retry_error err)
    let ?st2 = "\<lparr>lastErr = Some (External err), trace = after_wait fl r st attempt @ [Called]\<rparr>"
    have run2: "retry_loop fl r w (MaxRetries r + 1) ?st2 (attempt + 1) = (ro, st')"
      using "1.prems"(1) loop_continue [OF entered retry_error(5)] by simp
    show ?thesis
    proof (rule "1.hyps" [OF entered retry_error(5) run2])
      show "int (invocations (trace ?st2)) = sint (attempt + 1)"
        using "1.prems"(2) s by simp
      show "attempt + 1 <s MaxRetries r + 1"
        using entered retry_error(4) by (rule next_attempt_in_budget)
    qed
  next
    case (retry_status resp)
    let ?st2 = "\<lparr>lastErr = Some (ServerError (StatusCode resp)),
        trace = after_wait fl r st attempt @ [Called, Closed resp]\<rparr>"
    have run2: "retry_loop fl r w (MaxRetries r + 1) ?st2 (attempt + 1) = (ro, st')"
      using "1.prems"(1) loop_continue [OF entered retry_status(5)] by simp
    show ?thesis
    proof (rule "1.hyps" [OF entered retry_status(5) run2])
      show "int (invocations (trace ?st2)) = sint (attempt + 1)"
        using "1.prems"(2) s by simp
      show "attempt + 1 <s MaxRetries r + 1"
        using entered retry_status(4) by (rule next_attempt_in_budget)
    qed
  qed
qed

lemma run_budget:
  assumes "DoRequestWithRetry fl w (Some r) = (res, tr)" "k < invocations tr"
  shows "0 \<le>s MaxRetries r" "MaxRetries r \<noteq> MaxInt" "int k \<le> sint (MaxRetries r)"
proof -
  obtain ro st' where
    run: "retry_loop fl r w (MaxRetries r + 1) \<lparr>lastErr = None, trace = []\<rparr> 0 = (ro, st')"
    and tr: "trace st' = tr"
    using run_trace [OF assms(1)] by blast
  have entered: "0 <s MaxRetries r + 1"
  proof (rule ccontr)
    assume "\<not> 0 <s MaxRetries r + 1"
    then have "st' = \<lparr>lastErr = None, trace = []\<rparr>" using run by (simp add: loop_exit)
    then show False using assms(2) tr by auto
  qed
  then show "0 \<le>s MaxRetries r" "MaxRetries r \<noteq> MaxInt"
    using not_entered_iff [of "MaxRetries r"] by (auto simp: word_sless_alt word_sle_eq)
  have "int (invocations (trace st')) \<le> sint (MaxRetries r) + 1"
    using run _ entered by (rule loop_budget) simp
  then show "int k \<le> sint (MaxRetries r)" using assms(2) tr by simp
qed

section \<open>Claims about the policy\<close>

lemma code_in_list_iff: "code_in_list statusCode codes = (statusCode \<in> set codes)"
  by (induction codes) auto

text \<open>
  Claim C2. \<open>IsRetryableError\<close> is false whenever \<open>MaxRetries\<close> is 0, whatever the outcome;
  otherwise it is true for every non-nil error; otherwise, for a response, it is true
  exactly when the status code is in \<open>RetryableStatusCodes\<close>, so that with an empty list no
  response is retryable.
\<close>

theorem IsRetryableError_cases:
  "(MaxRetries r = 0 \<longrightarrow> \<not> IsRetryableError r err statusCode) \<and>
   (MaxRetries r \<noteq> 0 \<longrightarrow> err \<noteq> None \<longrightarrow> IsRetryableError r err statusCode) \<and>
   (MaxRetries r \<noteq> 0 \<longrightarrow>
      IsRetryableError r None statusCode = (statusCode \<in> set (RetryableStatusCodes r))) \<and>
   (RetryableStatusCodes r = [] \<longrightarrow> \<not> IsRetryableError r None statusCode)"
  by (simp add: IsRetryableError_def code_in_list_iff)

text \<open>
  Five cases after the repository's table test of \<open>IsRetryableError\<close>, the first with a
  transport error where the test has none.
\<close>

theorem IsRetryableError_cases_witness:
  "\<not> IsRetryableError \<lparr>MaxRetries = 0, RetryDelay = 0, MaxRetryDelay = 0, BackoffMultiplier = (1::rat),
        RetryableStatusCodes = [500]\<rparr> (Some (External ''connection refused'')) 500 \<and>
   IsRetryableError \<lparr>MaxRetries = 3, RetryDelay = 0, MaxRetryDelay = 0, BackoffMultiplier = (1::rat),
        RetryableStatusCodes = [500]\<rparr> (Some (External ''connection refused'')) 0 \<and>
   IsRetryableError \<lparr>MaxRetries = 3, RetryDelay = 0, MaxRetryDelay = 0, BackoffMultiplier = (1::rat),
        RetryableStatusCodes = [500, 502, 503]\<rparr> None 502 \<and>
   \<not> IsRetryableError \<lparr>MaxRetries = 3, RetryDelay = 0, MaxRetryDelay = 0, BackoffMultiplier = (1::rat),
        RetryableStatusCodes = [500, 502, 503]\<rparr> None 400 \<and>
   \<not> IsRetryableError \<lparr>MaxRetries = 3, RetryDelay = 0, MaxRetryDelay = 0, BackoffMultiplier = (1::rat),
        RetryableStatusCodes = []\<rparr> None 500"
  using
    IsRetryableError_cases [of "\<lparr>MaxRetries = 0, RetryDelay = 0, MaxRetryDelay = 0,
        BackoffMultiplier = (1::rat), RetryableStatusCodes = [500]\<rparr>"
        "Some (External ''connection refused'')" 500]
    IsRetryableError_cases [of "\<lparr>MaxRetries = 3, RetryDelay = 0, MaxRetryDelay = 0,
        BackoffMultiplier = (1::rat), RetryableStatusCodes = [500]\<rparr>"
        "Some (External ''connection refused'')" 0]
    IsRetryableError_cases [of "\<lparr>MaxRetries = 3, RetryDelay = 0, MaxRetryDelay = 0,
        BackoffMultiplier = (1::rat), RetryableStatusCodes = [500, 502, 503]\<rparr>" None 502]
    IsRetryableError_cases [of "\<lparr>MaxRetries = 3, RetryDelay = 0, MaxRetryDelay = 0,
        BackoffMultiplier = (1::rat), RetryableStatusCodes = [500, 502, 503]\<rparr>" None 400]
    IsRetryableError_cases [of "\<lparr>MaxRetries = 3, RetryDelay = 0, MaxRetryDelay = 0,
        BackoffMultiplier = (1::rat), RetryableStatusCodes = []\<rparr>" None 500]
  by simp

subsection \<open>The delay\<close>

text \<open>
  Whatever the float64 operations do, and whatever the signs of the fields, the returned
  delay does not exceed \<open>MaxRetryDelay\<close> in the signed order of \<open>Duration\<close>.
\<close>

lemma CalculateRetryDelay_capped:
  "CalculateRetryDelay fl r attempt \<le>s MaxRetryDelay r"
  by (auto simp: CalculateRetryDelay_def Let_def word_sless_alt word_sle_eq)

text \<open>
  In binary64 an integer below \<open>2 ^ 53\<close> in magnitude is a float64, and rounding leaves it
  as it is.
\<close>

lemma bit_length_bounds:
  "0 < n \<Longrightarrow> 2 ^ (bit_length n - 1) \<le> n \<and> n < 2 ^ bit_length n"
proof (induction n rule: bit_length.induct)
  case (1 n)
  show ?case
  proof (cases "n div 2 = 0")
    case True
    then have "n = 1" using "1.prems" by (simp add: div_eq_0_iff)
    then show ?thesis by (simp add: bit_length.simps)
  next
    case False
    then have pos: "0 < n div 2" by simp
    have nz: "n \<noteq> 0" using "1.prems" by simp
    have ih: "2 ^ (bit_length (n div 2) - 1) \<le> n div 2" "n div 2 < 2 ^ bit_length (n div 2)"
      using "1.IH" [OF nz pos] by blast+
    have b: "bit_length n = Suc (bit_length (n div 2))"
      using nz by (subst bit_length.simps) simp
    have b1: "0 < bit_length (n div 2)"
      using pos by (subst bit_length.simps) simp
    have "(2::nat) ^ bit_length (n div 2) = 2 * 2 ^ (bit_length (n div 2) - 1)"
      using b1 by (cases "bit_length (n div 2)") simp_all
    also have "\<dots> \<le> 2 * (n div 2)" using ih(1) by simp
    also have "\<dots> \<le> n" by simp
    finally have lo: "(2::nat) ^ bit_length (n div 2) \<le> n" .
    have hi: "n < 2 * 2 ^ bit_length (n div 2)" using ih(2) by arith
    show ?thesis using lo hi b by simp
  qed
qed

lemma round_even_of_int: "round_even (of_int m) = m"
  by (simp add: round_even_def)

lemma round64_nat:
  assumes "0 < n" "n < 2 ^ 53"
  shows "round64 (of_nat n) = Finite (of_nat n)"
proof -
  let ?b = "bit_length n"
  have bnd: "2 ^ (?b - 1) \<le> n" "n < 2 ^ ?b"
    using bit_length_bounds [OF assms(1)] by simp_all
  have b1: "1 \<le> ?b" using assms(1) by (subst bit_length.simps) simp
  have b53: "?b \<le> 53"
  proof (rule ccontr)
    assume "\<not> ?b \<le> 53"
    then have "53 \<le> ?b - 1" by simp
    then have "(2::nat) ^ 53 \<le> 2 ^ (?b - 1)" by (rule power_increasing) simp
    then show False using bnd(1) assms(2) by simp
  qed
  have one: "(1::rat) \<le> of_nat n" using assms(1) by simp
  have il: "ilog2 (of_nat n) = int ?b - 1"
    using one by (simp add: ilog2_def)
  have e: "max (int ?b - 1) (- 1022) = int ?b - 1" using b1 by simp
  have p: "pow2 (int ?b - 1 - 52) = 1 / 2 ^ (53 - ?b)"
  proof (cases "?b = 53")
    case True
    then show ?thesis by (simp add: pow2_def)
  next
    case False
    then have "?b < 53" using b53 by simp
    then have "nat (52 - (int ?b - 1)) = 53 - ?b" by simp
    then show ?thesis using \<open>?b < 53\<close> by (simp add: pow2_def)
  qed
  have sc: "(of_nat n :: rat) / (1 / 2 ^ (53 - ?b)) = of_int (int (n * 2 ^ (53 - ?b)))"
    by simp
  have v: "of_int (round_even (of_nat n / (1 / 2 ^ (53 - ?b)))) * (1 / 2 ^ (53 - ?b))
      = (of_nat n :: rat)"
    unfolding sc round_even_of_int by simp
  have small: "\<not> (2::rat) ^ 1024 \<le> of_nat n"
  proof -
    have "(of_nat n :: rat) < of_nat (2 ^ 53)" using assms(2) by (simp only: of_nat_less_iff)
    also have "\<dots> \<le> 2 ^ 1024" by simp
    finally show ?thesis by simp
  qed
  have nz: "(of_nat n :: rat) \<noteq> 0" "(0::rat) < of_nat n" using assms(1) by simp_all
  have "round64 (of_nat n)
      = (let a = \<bar>of_nat n :: rat\<bar>; e = max (ilog2 a) (- 1022);
             v = of_int (round_even (a / pow2 (e - 52))) * pow2 (e - 52)
         in if 2 ^ 1024 \<le> v then PosInf else Finite v)"
    unfolding round64_def using nz by (simp only: if_False if_True Let_def)
  also have "\<dots> = Finite (of_nat n)"
    using small by (simp only: Let_def abs_of_nat il e p v if_False)
  finally show ?thesis .
qed

lemma round64_uminus:
  "round64 (- q) = (case round64 q of Finite v \<Rightarrow> Finite (- v) | PosInf \<Rightarrow> NegInf
     | NegInf \<Rightarrow> PosInf | NaN \<Rightarrow> NaN)"
  by (simp add: round64_def Let_def)

lemma round64_int:
  assumes "\<bar>n\<bar> < 2 ^ 53"
  shows "round64 (of_int n) = Finite (of_int n)"
proof -
  have pos: "round64 (of_int k) = Finite (of_int k)" if "0 < k" "k < 2 ^ 53" for k :: int
  proof -
    have "nat k < 2 ^ 53" using that by (simp add: nat_less_iff)
    then have "round64 (of_nat (nat k)) = Finite (of_nat (nat k))"
      using that(1) by (intro round64_nat) simp_all
    then show ?thesis using that(1) by simp
  qed
  consider "n = 0" | "0 < n" | "n < 0" by linarith
  then show ?thesis
  proof cases
    case 1
    then show ?thesis by (simp add: round64_def)
  next
    case 2
    then show ?thesis using pos [of n] assms by simp
  next
    case 3
    then have "round64 (of_int (- n)) = Finite (of_int (- n))" using pos [of "- n"] assms by simp
    then have "round64 (- (- of_int n)) = Finite (of_int n)"
      by (subst round64_uminus) simp
    then show ?thesis by simp
  qed
qed

lemma round64_numeral:
  "round64 0 = Finite 0"
  "round64 1 = Finite 1"
  "(numeral k :: int) < 2 ^ 53 \<Longrightarrow> round64 (numeral k) = Finite (numeral k)"
  using round64_int [of 0] round64_int [of 1] round64_int [of "numeral k"] by simp_all

lemma trunc_rat_of_int: "trunc_rat (of_int k) = k"
  by (simp add: trunc_rat_def)

lemma duration_of_int:
  "- (2 ^ 63) \<le> k \<Longrightarrow> k < 2 ^ 63 \<Longrightarrow> duration_of oor (Finite (of_int k)) = word_of_int k"
  by (simp add: trunc_rat_of_int)

lemma fmul64_int:
  "\<bar>j * k\<bar> < 2 ^ 53 \<Longrightarrow> fmul64 (Finite (of_int j)) (Finite (of_int k)) = Finite (of_int (j * k))"
  using round64_int [of "j * k"] by simp

lemma sint_word_of_int_small:
  "- (2 ^ 63) \<le> k \<Longrightarrow> k < 2 ^ 63 \<Longrightarrow> sint (word_of_int k :: 64 word) = k"
  by (simp add: signed_take_bit_int_eq_self sint_sbintrunc')

lemma sint_capped:
  "sint w = k \<Longrightarrow> sint (if mx <s w then mx else w) = min k (sint mx)"
  by (simp add: word_sless_alt min_def)

text \<open>
  Where the formula of the specification is exact. For a multiplier that is a whole number
  \<open>m\<close>, an attempt other than the largest \<open>int\<close>, and a base delay, a factor
  \<open>attempt + 1\<close> and products all below \<open>2 ^ 53\<close> in magnitude, binary64 rounds nothing and
  the delay in nanoseconds is the smaller of \<open>RetryDelay * (attempt + 1) * m\<close> and
  \<open>MaxRetryDelay\<close>: a product linear in the attempt, with no power of the multiplier.
\<close>

lemma delay_whole_numbers:
  fixes r :: "float64 RetryOptions"
  assumes m: "BackoffMultiplier r = Finite (of_int m)"
    and a: "attempt \<noteq> MaxInt"
    and b: "\<bar>sint (RetryDelay r)\<bar> < 2 ^ 53" "\<bar>sint attempt + 1\<bar> < 2 ^ 53"
      "\<bar>sint (RetryDelay r) * (sint attempt + 1)\<bar> < 2 ^ 53"
      "\<bar>sint (RetryDelay r) * (sint attempt + 1) * m\<bar> < 2 ^ 53"
  shows "sint (CalculateRetryDelay (binary64 oor) r attempt)
    = min (sint (RetryDelay r) * (sint attempt + 1) * m) (sint (MaxRetryDelay r))"
proof -
  let ?k = "sint (RetryDelay r) * (sint attempt + 1) * m"
  have s: "sint (attempt + 1) = sint attempt + 1"
    using a by (simp only: sint_plus1 if_False)
  have c1: "of_int64 (binary64 oor) (RetryDelay r) = Finite (of_int (sint (RetryDelay r)))"
    unfolding binary64_def using round64_int [OF b(1)] by (simp del: of_int_sint)
  have c2: "of_int64 (binary64 oor) (attempt + 1) = Finite (of_int (sint attempt + 1))"
    unfolding binary64_def using round64_int [OF b(2)] s by (simp del: of_int_sint)
  have ops: "fmul (binary64 oor) = fmul64" "to_int64 (binary64 oor) = duration_of oor"
    by (simp_all add: binary64_def)
  have p1: "fmul (binary64 oor) (Finite (of_int (sint (RetryDelay r))))
      (Finite (of_int (sint attempt + 1)))
      = Finite (of_int (sint (RetryDelay r) * (sint attempt + 1)))"
    unfolding ops using b(3) by (rule fmul64_int)
  have p2: "fmul (binary64 oor) (Finite (of_int (sint (RetryDelay r) * (sint attempt + 1))))
      (Finite (of_int m)) = Finite (of_int ?k)"
    unfolding ops using b(4) by (rule fmul64_int)
  have range: "- (2 ^ 63) \<le> ?k" "?k < 2 ^ 63" using b(4) by simp_all
  have cv: "to_int64 (binary64 oor) (Finite (of_int ?k)) = word_of_int ?k"
    unfolding ops using range by (rule duration_of_int)
  have sk: "sint (word_of_int ?k :: 64 word) = ?k"
    using range by (rule sint_word_of_int_small)
  have "CalculateRetryDelay (binary64 oor) r attempt
      = (if MaxRetryDelay r <s word_of_int ?k then MaxRetryDelay r else word_of_int ?k)"
    unfolding CalculateRetryDelay_def Let_def c1 c2 p1 m p2 cv ..
  then show ?thesis using sint_capped [OF sk] by (simp only:)
qed

text \<open>
  The table of the repository's \<open>TestRetryOptionsCalculateRetryDelay\<close>, and the default
  policy at attempt 9: 200ms, 400ms, 600ms (a geometric growth would give 800ms at attempt
  2), then the ceiling.
\<close>

lemma delay_vectors:
  "CalculateRetryDelay (binary64 oor) (DefaultRetryOptions (binary64 oor)) 0 = 200 * Millisecond"
  "CalculateRetryDelay (binary64 oor) (DefaultRetryOptions (binary64 oor)) 1 = 400 * Millisecond"
  "CalculateRetryDelay (binary64 oor) (DefaultRetryOptions (binary64 oor)) 2 = 600 * Millisecond"
  "CalculateRetryDelay (binary64 oor) (DefaultRetryOptions (binary64 oor)) 9 = 2 * Second"
  "CalculateRetryDelay (binary64 oor) \<lparr>MaxRetries = 3, RetryDelay = 500 * Millisecond,
      MaxRetryDelay = 1 * Second, BackoffMultiplier = lit (binary64 oor) 2,
      RetryableStatusCodes = []\<rparr> 5 = 1 * Second"
  "CalculateRetryDelay (binary64 oor) \<lparr>MaxRetries = 3, RetryDelay = 100 * Millisecond,
      MaxRetryDelay = 2 * Second, BackoffMultiplier = lit (binary64 oor) 1,
      RetryableStatusCodes = []\<rparr> 2 = 300 * Millisecond"
  by (simp_all add: CalculateRetryDelay_def DefaultRetryOptions_def binary64_def round64_numeral
      trunc_rat_def Millisecond_def Second_def word_sless_alt)

text \<open>
  On the policies of the tests of the executor, exact arithmetic gives the delays of
  binary64.
\<close>

lemma exact_ops_on_tests:
  "CalculateRetryDelay (binary64 oor) (as_binary64 (test_policy n codes)) 0
     = CalculateRetryDelay exact_ops (test_policy n codes) 0"
  "CalculateRetryDelay (binary64 oor) (as_binary64 (test_policy n codes)) 1
     = CalculateRetryDelay exact_ops (test_policy n codes) 1"
  "CalculateRetryDelay (binary64 oor) (as_binary64 (test_policy n codes)) 2
     = CalculateRetryDelay exact_ops (test_policy n codes) 2"
  "CalculateRetryDelay (binary64 oor) (as_binary64 slow_policy) 0
     = CalculateRetryDelay exact_ops slow_policy 0"
  by (simp_all add: CalculateRetryDelay_def as_binary64_def test_policy_def slow_policy_def
      binary64_def exact_ops_def round64_numeral trunc_rat_def Millisecond_def Second_def
      word_sless_alt)

text \<open>
  Outside whole numbers the product is rounded and the conversion truncates. The constant
  2.3 is not a float64; with the float64 nearest to it, 100ms times 3 times 2.3 is 690ms
  exactly after rounding. And 1ns times 1 times 1.5 is truncated to 1ns.
\<close>

lemma floor_numeral_div: "\<lfloor>numeral a / numeral b :: rat\<rfloor> = numeral a div numeral b"
  using floor_divide_of_int_eq [of "numeral a" "numeral b", where ?'a = rat] by simp

lemma ilog2_values:
  "ilog2 (23 / 10) = 1"
  "ilog2 (3034652092661759765625 / 4398046511104) = 29"
  "ilog2 (3 / 2) = 0"
  "ilog2 100000000000000000000 = 66"
  "ilog2 9223372036854775808 = 63"
  by (simp_all add: ilog2_def bit_length.simps floor_numeral_div)

lemma round64_values:
  "round64 (23 / 10) = Finite (2589569785738035 / 1125899906842624)"
  "round64 (3034652092661759765625 / 4398046511104) = Finite 690000000"
  "round64 (3 / 2) = Finite (3 / 2)"
  "round64 100000000000000000000 = Finite 100000000000000000000"
  "round64 (- 9223372036854775808) = Finite (- 9223372036854775808)"
  by (simp_all add: round64_def ilog2_values pow2_def round_even_def Let_def floor_numeral_div)

lemma delay_rounded:
  "CalculateRetryDelay (binary64 oor) \<lparr>MaxRetries = 3, RetryDelay = 100 * Millisecond,
      MaxRetryDelay = 2 * Second, BackoffMultiplier = lit (binary64 oor) (23 / 10),
      RetryableStatusCodes = []\<rparr> 2 = 690 * Millisecond"
  "CalculateRetryDelay (binary64 oor) \<lparr>MaxRetries = 3, RetryDelay = 1,
      MaxRetryDelay = 10, BackoffMultiplier = lit (binary64 oor) (3 / 2),
      RetryableStatusCodes = []\<rparr> 0 = 1"
  by (simp_all add: CalculateRetryDelay_def binary64_def round64_values round64_numeral
      trunc_rat_def Millisecond_def Second_def word_sless_alt floor_numeral_div)

text \<open>
  A product beyond the range of \<open>int64\<close>: 100ms times 1 times \<open>10 ^ 12\<close> is \<open>10 ^ 20\<close>
  nanoseconds. The conversion is then the implementation's; on amd64 it gives the smallest
  \<open>Duration\<close>, which is not above the ceiling of 2s and is returned.
\<close>

lemma delay_out_of_range:
  "CalculateRetryDelay (binary64 amd64) \<lparr>MaxRetries = 3, RetryDelay = 100 * Millisecond,
      MaxRetryDelay = 2 * Second, BackoffMultiplier = lit (binary64 amd64) 1000000000000,
      RetryableStatusCodes = []\<rparr> 0 = MinInt"
  by (simp add: CalculateRetryDelay_def binary64_def round64_values round64_numeral
      trunc_rat_def Millisecond_def Second_def word_sless_alt amd64_def MinInt_def)

text \<open>
  Claim C3. The claim gives the delay, for every attempt index from 0 on, as the smaller of
  \<open>RetryDelay * (attempt + 1) * BackoffMultiplier\<close> and \<open>MaxRetryDelay\<close>. The source
  computes \<open>attempt + 1\<close> in Go's \<open>int\<close>: at the largest index, which is not negative, the
  sum wraps to \<open>- 2 ^ 63\<close>. With a base delay of 1ns, a ceiling of 5ns and a multiplier of
  1.0, the product is \<open>- 2 ^ 63\<close>, a number that float64 and \<open>Duration\<close> both hold, and
  the function returns a delay of \<open>- 2 ^ 63\<close> nanoseconds, whatever the platform does with
  out-of-range conversions. The formula of the claim gives the ceiling, 5ns.
\<close>

theorem CalculateRetryDelay_at_MaxInt:
  "0 \<le>s MaxInt \<and>
   sint (CalculateRetryDelay (binary64 oor) \<lparr>MaxRetries = 3, RetryDelay = 1, MaxRetryDelay = 5,
      BackoffMultiplier = lit (binary64 oor) 1, RetryableStatusCodes = []\<rparr> MaxInt) = - (2 ^ 63) \<and>
   min (sint (1 :: Duration) * (sint MaxInt + 1) * 1) (sint (5 :: Duration)) = 5"
  by (simp add: CalculateRetryDelay_def binary64_def round64_values round64_numeral trunc_rat_def
      MaxInt_def MinInt_def word_sless_alt word_sle_eq)

subsection \<open>The default policy\<close>

text \<open>
  Claim C8. A call with a nil policy is the call with the default policy, and the default
  policy has MaxRetries 3, RetryDelay 100ms (100000000 nanoseconds), MaxRetryDelay 2s
  (2000000000 nanoseconds), BackoffMultiplier 2.0 and the status codes 408, 429, 500, 502,
  503, 504 in this order.
\<close>

theorem DefaultRetryOptions_fields:
  "DoRequestWithRetry fl w None = DoRequestWithRetry fl w (Some (DefaultRetryOptions fl)) \<and>
   MaxRetries (DefaultRetryOptions fl) = 3 \<and>
   RetryDelay (DefaultRetryOptions fl) = 100000000 \<and>
   MaxRetryDelay (DefaultRetryOptions fl) = 2000000000 \<and>
   BackoffMultiplier (DefaultRetryOptions fl) = lit fl 2 \<and>
   RetryableStatusCodes (DefaultRetryOptions fl) = [408, 429, 500, 502, 503, 504]"
  by (simp add: DoRequestWithRetry_def DefaultRetryOptions_def Millisecond_def Second_def
      StatusRequestTimeout_def StatusTooManyRequests_def StatusInternalServerError_def
      StatusBadGateway_def StatusServiceUnavailable_def StatusGatewayTimeout_def)

subsection \<open>A negative number of retries\<close>

text \<open>
  Claim C10. With a negative \<open>MaxRetries\<close>, \<open>IsRetryableError\<close> is still true for every non-nil
  error and for every status code of the list; it is false for all outcomes only when
  \<open>MaxRetries\<close> is 0. What prevents the attempts for a negative value is the loop condition:
  \<open>0 < maxAttempts\<close> fails, no call is made and the result is the error "no attempts made".
\<close>

theorem negative_MaxRetries:
  "(MaxRetries r <s 0 \<longrightarrow> IsRetryableError r (Some e) statusCode) \<and>
   (MaxRetries r <s 0 \<longrightarrow> statusCode \<in> set (RetryableStatusCodes r) \<longrightarrow>
      IsRetryableError r None statusCode) \<and>
   ((\<forall>err sc. \<not> IsRetryableError r err sc) = (MaxRetries r = 0)) \<and>
   (MaxRetries r <s 0 \<longrightarrow>
      \<not> 0 <s MaxRetries r + 1 \<and> DoRequestWithRetry fl w (Some r) = (Inl NoAttemptsMade, []))"
proof -
  have "MaxRetries r \<noteq> 0" if "MaxRetries r <s 0"
    using that by (auto simp: word_sless_alt)
  moreover have "(\<forall>err sc. \<not> IsRetryableError r err sc) = (MaxRetries r = 0)"
  proof
    assume "\<forall>err sc. \<not> IsRetryableError r err sc"
    then have "\<not> IsRetryableError r (Some NoAttemptsMade) 0" by blast
    then show "MaxRetries r = 0" by (simp add: IsRetryableError_def split: if_splits)
  qed (simp add: IsRetryableError_def)
  ultimately show ?thesis
    using not_entered_iff [of "MaxRetries r"] run_no_attempts [of r fl w]
    by (simp add: IsRetryableError_def code_in_list_iff)
qed

text \<open>
  The policy of the subtest "negative max retries makes no attempts", against a server
  that would answer 200.
\<close>

theorem negative_MaxRetries_witness:
  "MaxRetries (test_policy (- 1) [503]) <s 0 \<and>
   IsRetryableError (test_policy (- 1) [503]) (Some (External ''connection refused'')) 503 \<and>
   IsRetryableError (test_policy (- 1) [503]) None 503 \<and>
   DoRequestWithRetry exact_ops (always_status 200) (Some (test_policy (- 1) [503]))
     = (Inl NoAttemptsMade, [])"
  using negative_MaxRetries [of "test_policy (- 1) [503]" "External ''connection refused''" 503
      exact_ops "always_status 200"]
  by (simp add: test_policy_def word_sless_alt)

section \<open>Claims about the executor\<close>

subsection \<open>Runs of the repository's tests\<close>

lemma run_always_503:
  "DoRequestWithRetry exact_ops (always_status 503) (Some (test_policy 2 [503])) =
     (Inr (status_response 503),
      [Called, Closed (status_response 503), Slept 1000000,
       Called, Closed (status_response 503), Slept 2000000, Called])"
  by (simp add: DoRequestWithRetry_def retry_loop.simps loop_body_def backoff_wait_def
      IsRetryableError_def Let_def invocations_def waits_def test_policy_def always_status_def
      status_response_def
      CalculateRetryDelay_def exact_ops_def trunc_rat_def Millisecond_def word_sless_alt)

lemma run_unavailable_twice:
  "DoRequestWithRetry exact_ops unavailable_twice (Some (test_policy 3 [503])) =
     (Inr (status_response 200),
      [Called, Closed (status_response 503), Slept 1000000,
       Called, Closed (status_response 503), Slept 2000000, Called])"
  by (simp add: DoRequestWithRetry_def retry_loop.simps loop_body_def backoff_wait_def
      IsRetryableError_def Let_def invocations_def waits_def test_policy_def
      unavailable_twice_def status_response_def
      CalculateRetryDelay_def exact_ops_def trunc_rat_def Millisecond_def word_sless_alt)

lemma run_bad_request:
  "DoRequestWithRetry exact_ops (always_status 400) (Some (test_policy 3 [503])) =
     (Inr (status_response 400), [Called])"
  by (simp add: DoRequestWithRetry_def retry_loop.simps loop_body_def backoff_wait_def
      IsRetryableError_def Let_def invocations_def waits_def test_policy_def always_status_def
      status_response_def word_sless_alt)

lemma run_cancelled:
  "DoRequestWithRetry exact_ops cancelled_in_first_wait (Some slow_policy) =
     (Inl (External ''context canceled''),
      [Called, Closed (status_response 503), Cancelled 100000000])"
  by (simp add: DoRequestWithRetry_def retry_loop.simps loop_body_def backoff_wait_def
      IsRetryableError_def Let_def invocations_def waits_def slow_policy_def
      cancelled_in_first_wait_def StatusServiceUnavailable_def status_response_def
      CalculateRetryDelay_def exact_ops_def trunc_rat_def Millisecond_def Second_def
      word_sless_alt)

subsection \<open>A transport that always fails\<close>

lemma always_failing_loop:
  "\<lbrakk>\<forall>k. \<exists>e. Do w k = Inl e; \<forall>j. CtxDone w j = None; MaxRetries r \<noteq> 0;
    attempt <s MaxRetries r + 1\<rbrakk> \<Longrightarrow>
   \<exists>e st'. retry_loop fl r w (MaxRetries r + 1) st attempt
               = (Some (Inl (FailedToExecuteAfterRetries (External e))), st')
     \<and> int (invocations (trace st'))
         = int (invocations (trace st)) + (sint (MaxRetries r) - sint attempt) + 1"
proof (induction fl r w "MaxRetries r + 1" st attempt rule: retry_loop.induct)
  case (1 fl r w st attempt)
  note entered = \<open>attempt <s MaxRetries r + 1\<close>
  show ?case
  proof (cases rule: loop_body_cases [of attempt w st fl r])
    case (cancelled e)
    then show ?thesis using "1.prems" by simp
  next
    case (not_retryable err)
    then show ?thesis using "1.prems" by simp
  next
    case (exhausted err)
    have "sint attempt = sint (MaxRetries r)"
      using entered_budget(3) [OF entered] exhausted(4) by (simp add: word_sle_eq)
    then show ?thesis using loop_return [OF entered exhausted(5)] by simp
  next
    case (retry_error err)
    have nxt: "attempt + 1 <s MaxRetries r + 1"
      using entered retry_error(4) by (rule next_attempt_in_budget)
    have s: "sint (attempt + 1) = sint attempt + 1"
      using entered by (rule sint_succ_below)
    from "1.hyps" [OF entered retry_error(5) "1.prems"(1,2,3) nxt]
    show ?thesis
      unfolding loop_continue [OF entered retry_error(5)] s by simp
  next
    case (retry_status resp)
    then show ?thesis using "1.prems"(1) by (metis sum.distinct(1))
  next
    case (response resp)
    then show ?thesis using "1.prems"(1) by (metis sum.distinct(1))
  qed
qed

lemma always_failing_run:
  assumes "\<forall>k. \<exists>e. Do w k = Inl e" "\<forall>j. CtxDone w j = None"
    and "0 \<le>s MaxRetries r" "MaxRetries r \<noteq> MaxInt"
  shows "\<exists>e tr. DoRequestWithRetry fl w (Some r) = (Inl e, tr)
     \<and> int (invocations tr) = sint (MaxRetries r) + 1"
proof -
  have entered: "0 <s MaxRetries r + 1"
    using assms(3,4) not_entered_iff [of "MaxRetries r"] by (auto simp: word_sless_alt word_sle_eq)
  show ?thesis
  proof (cases "MaxRetries r = 0")
    case True
    obtain e where e: "Do w 0 = Inl e" using assms(1) by blast
    have "loop_body fl r w \<lparr>lastErr = None, trace = []\<rparr> 0
        = Return (Inl (FailedToExecute (External e))) \<lparr>lastErr = Some (External e), trace = [Called]\<rparr>"
      using e True by (simp add: loop_body_def IsRetryableError_def)
    from loop_return [OF entered this] show ?thesis
      using True by (simp add: DoRequestWithRetry_def invocations_def)
  next
    case False
    from always_failing_loop [OF assms(1,2) False entered, of fl "\<lparr>lastErr = None, trace = []\<rparr>"]
    show ?thesis
      by (auto simp: DoRequestWithRetry_def)
  qed
qed

text \<open>
  Claim C1. Against a transport that fails on every call, a policy with
  \<open>MaxRetries = N \<ge> 0\<close> gives exactly \<open>N + 1\<close> calls and an error, and a policy with
  \<open>MaxRetries < 0\<close> gives no call and an error. With a context that is not cancelled this
  holds for every \<open>N\<close> below the largest \<open>int\<close> (\<open>always_failing_run\<close>) and for every
  negative \<open>N\<close> (\<open>run_no_attempts\<close>). At \<open>N = MaxInt\<close> it fails: \<open>MaxRetries + 1\<close> wraps
  to the smallest \<open>int\<close>, the loop is skipped, and the run makes no call at all instead of
  \<open>N + 1\<close>; it returns "no attempts made".
\<close>

theorem always_refused_at_MaxInt:
  "0 \<le>s MaxRetries (test_policy MaxInt [503]) \<and>
   DoRequestWithRetry exact_ops always_refused (Some (test_policy MaxInt [503]))
     = (Inl NoAttemptsMade, []) \<and>
   int (invocations []) \<noteq> sint (MaxRetries (test_policy MaxInt [503])) + 1"
  using run_no_attempts [of "test_policy MaxInt [503]" exact_ops always_refused]
  by (simp add: test_policy_def MaxInt_def word_sle_eq)

subsection \<open>A response ends the run or is retried\<close>

lemma response_loop:
  "\<lbrakk>retry_loop fl r w (MaxRetries r + 1) st attempt = (ro, st');
    int (invocations (trace st)) = sint attempt;
    invocations (trace st) \<le> k; k < invocations (trace st'); Do w k = Inr resp\<rbrakk> \<Longrightarrow>
   (ro = Some (Inr resp) \<and> invocations (trace st') = Suc k)
     = (\<not> IsRetryableError r None (StatusCode resp) \<or> sint (MaxRetries r) \<le> int k)"
proof (induction fl r w "MaxRetries r + 1" st attempt rule: retry_loop.induct)
  case (1 fl r w st attempt)
  show ?case
  proof (cases "attempt <s MaxRetries r + 1")
    case False
    then show ?thesis using "1.prems" by (simp add: loop_exit)
  next
    case entered: True
    have s: "sint (attempt + 1) = sint attempt + 1"
      using entered by (rule sint_succ_below)
    show ?thesis
    proof (cases rule: loop_body_cases [of attempt w st fl r])
      case (cancelled e)
      then show ?thesis
        using "1.prems" loop_return [OF entered cancelled(3)] by auto
    next
      case (not_retryable err)
      have "k = invocations (trace st)"
        using "1.prems" loop_return [OF entered not_retryable(4)] by auto
      then show ?thesis using not_retryable(2) "1.prems"(5) by simp
    next
      case (exhausted err)
      have "k = invocations (trace st)"
        using "1.prems" loop_return [OF entered exhausted(5)] by auto
      then show ?thesis using exhausted(2) "1.prems"(5) by simp
    next
      case (response resp0)
      have "k = invocations (trace st)"
        using "1.prems" loop_return [OF entered response(4)] by auto
      then show ?thesis
        using "1.prems" loop_return [OF entered response(4)] response(2,3)
        by (auto simp: word_sless_alt)
    next
      case (retry_error err)
      let ?st2 = "\<lparr>lastErr = Some (External err), trace = after_wait fl r st attempt @ [Called]\<rparr>"
      have run2: "retry_loop fl r w (MaxRetries r + 1) ?st2 (attempt + 1) = (ro, st')"
        using "1.prems"(1) loop_continue [OF entered retry_error(5)] by simp
      have ne: "k \<noteq> invocations (trace st)"
        using retry_error(2) "1.prems"(5) by auto
      show ?thesis
      proof (rule "1.hyps" [OF entered retry_error(5) run2])
        show "int (invocations (trace ?st2)) = sint (attempt + 1)"
          using "1.prems"(2) s by simp
        show "invocations (trace ?st2) \<le> k" using ne "1.prems"(3) by simp
      qed fact+
    next
      case (retry_status resp0)
      let ?st2 = "\<lparr>lastErr = Some (ServerError (StatusCode resp0)),
          trace = after_wait fl r st attempt @ [Called, Closed resp0]\<rparr>"
      have run2: "retry_loop fl r w (MaxRetries r + 1) ?st2 (attempt + 1) = (ro, st')"
        using "1.prems"(1) loop_continue [OF entered retry_status(5)] by simp
      have inv2: "invocations (trace ?st2) = Suc (invocations (trace st))"
        by simp
      show ?thesis
      proof (cases "k = invocations (trace st)")
        case True
        then have same: "resp0 = resp" using retry_status(2) "1.prems"(5) by simp
        have "ro = Some (Inr resp) \<Longrightarrow> Suc k < invocations (trace st')"
          using loop_response_calls [of fl r w "MaxRetries r + 1" ?st2 "attempt + 1" resp st']
            run2 inv2 True by simp
        moreover have "sint attempt < sint (MaxRetries r)"
          using retry_status(4) by (simp add: word_sless_alt)
        ultimately show ?thesis
          using retry_status(3) same True "1.prems"(2) by auto
      next
        case False
        show ?thesis
        proof (rule "1.hyps" [OF entered retry_status(5) run2])
          show "int (invocations (trace ?st2)) = sint (attempt + 1)"
            using "1.prems"(2) s inv2 by simp
          show "invocations (trace ?st2) \<le> k" using False "1.prems"(3) inv2 by simp
        qed fact+
      qed
    qed
  qed
qed

lemma response_returned_iff:
  assumes run: "DoRequestWithRetry fl w (Some r) = (res, tr)"
    and k: "k < invocations tr" and resp: "Do w k = Inr resp"
  shows "(res = Inr resp \<and> invocations tr = Suc k)
     = (StatusCode resp \<notin> set (RetryableStatusCodes r) \<or> int k = sint (MaxRetries r))"
proof -
  obtain ro st' where
    loop: "retry_loop fl r w (MaxRetries r + 1) \<lparr>lastErr = None, trace = []\<rparr> 0 = (ro, st')"
    and tr: "trace st' = tr"
    and res: "case ro of Some res' \<Rightarrow> res = res' | None \<Rightarrow> True"
    using run_trace [OF run] by blast
  have le: "int k \<le> sint (MaxRetries r)" using run k by (rule run_budget)
  have "0 <s MaxRetries r + 1"
    using run_budget(1,2) [OF run k] not_entered_iff [of "MaxRetries r"]
    by (auto simp: word_sless_alt word_sle_eq)
  then obtain res' where ro: "ro = Some res'"
    using loop loop_entered_returns [of 0 r fl w "\<lparr>lastErr = None, trace = []\<rparr>"] by auto
  then have res': "res' = res" using res by simp
  have "(ro = Some (Inr resp) \<and> invocations (trace st') = Suc k)
     = (\<not> IsRetryableError r None (StatusCode resp) \<or> sint (MaxRetries r) \<le> int k)"
    using loop by (rule response_loop) (use k resp tr in simp_all)
  moreover have "MaxRetries r = 0 \<Longrightarrow> sint (MaxRetries r) \<le> int k" by simp
  ultimately show ?thesis
    using le ro res' tr by (auto simp: IsRetryableError_def code_in_list_iff)
qed

lemma always_503:
  assumes "MaxRetries r = 2" "set (RetryableStatusCodes r) = {503}"
    and "\<forall>k. \<exists>resp. Do w k = Inr resp \<and> StatusCode resp = 503"
    and "CtxDone w 0 = None" "CtxDone w 1 = None"
  shows "\<exists>resp tr. DoRequestWithRetry fl w (Some r) = (Inr resp, tr) \<and> invocations tr = 3
      \<and> Do w 2 = Inr resp \<and> StatusCode resp = 503"
proof -
  obtain r0 r1 r2 where
    "Do w 0 = Inr r0" "StatusCode r0 = 503"
    "Do w 1 = Inr r1" "StatusCode r1 = 503"
    "Do w 2 = Inr r2" "StatusCode r2 = 503"
    using assms(3) by metis
  moreover from this
  have "Do w (Suc 0) = Inr r1" "Do w (Suc (Suc 0)) = Inr r2" "CtxDone w (Suc 0) = None"
    using assms(5) by (simp_all add: numeral_2_eq_2)
  ultimately show ?thesis
    using assms(1,2,4)
    by (simp add: DoRequestWithRetry_def retry_loop.simps loop_body_def backoff_wait_def
      IsRetryableError_def code_in_list_iff Let_def invocations_def waits_def
      word_sless_alt word_sle_eq)
qed

lemma first_call_400:
  assumes "MaxRetries r = 3" "400 \<notin> set (RetryableStatusCodes r)"
    and "Do w 0 = Inr resp" "StatusCode resp = 400"
  shows "\<exists>tr. DoRequestWithRetry fl w (Some r) = (Inr resp, tr) \<and> invocations tr = 1"
  using assms
  by (simp add: DoRequestWithRetry_def retry_loop.simps loop_body_def backoff_wait_def
      IsRetryableError_def code_in_list_iff Let_def invocations_def waits_def
      word_sless_alt word_sle_eq)

text \<open>
  Claim C4. When the \<open>k\<close>-th call of a run returns a response, the run ends there with
  that response and a nil error exactly when the status code is not in
  \<open>RetryableStatusCodes\<close> or the attempt is the last one the policy allows
  (\<open>k = MaxRetries\<close>). In particular, with a context that is not cancelled during the two
  waits, a server that always answers 503, \<open>MaxRetries = 2\<close> and 503 the only retryable code
  give 3 calls and the third 503 response with a nil error; and a 400 on the first call,
  with \<open>MaxRetries = 3\<close> and 400 not retryable, gives 1 call and that response.
\<close>

theorem response_is_final:
  "(DoRequestWithRetry fl w (Some r) = (res, tr) \<longrightarrow> k < invocations tr \<longrightarrow>
    Do w k = Inr resp \<longrightarrow>
      ((res = Inr resp \<and> invocations tr = Suc k)
        = (StatusCode resp \<notin> set (RetryableStatusCodes r) \<or> int k = sint (MaxRetries r)))) \<and>
   (MaxRetries r2 = 2 \<longrightarrow> set (RetryableStatusCodes r2) = {503} \<longrightarrow>
    (\<forall>k. \<exists>resp. Do w2 k = Inr resp \<and> StatusCode resp = 503) \<longrightarrow>
    CtxDone w2 0 = None \<longrightarrow> CtxDone w2 1 = None \<longrightarrow>
      (\<exists>resp tr. DoRequestWithRetry fl w2 (Some r2) = (Inr resp, tr) \<and> invocations tr = 3
         \<and> Do w2 2 = Inr resp \<and> StatusCode resp = 503)) \<and>
   (MaxRetries r3 = 3 \<longrightarrow> 400 \<notin> set (RetryableStatusCodes r3) \<longrightarrow>
    Do w3 0 = Inr resp3 \<longrightarrow> StatusCode resp3 = 400 \<longrightarrow>
      (\<exists>tr. DoRequestWithRetry fl w3 (Some r3) = (Inr resp3, tr) \<and> invocations tr = 1))"
  using response_returned_iff [of fl w r res tr k resp] always_503 [of r2 w2 fl]
    first_call_400 [of r3 w3 resp3 fl]
  by blast

text \<open>
  The subtests "all retries exhausted with server error" (the third call, \<open>k = 2\<close>, is the
  last allowed) and "non-retryable status code".
\<close>

theorem response_is_final_witness:
  "((Inr (status_response 503) = (Inr (status_response 503) :: error + Response) \<and>
     invocations [Called, Closed (status_response 503), Slept 1000000,
       Called, Closed (status_response 503), Slept 2000000, Called] = Suc 2)
      = (StatusCode (status_response 503) \<notin> set (RetryableStatusCodes (test_policy 2 [503]))
         \<or> int 2 = sint (MaxRetries (test_policy 2 [503])))) \<and>
   (\<exists>resp tr. DoRequestWithRetry exact_ops (always_status 503) (Some (test_policy 2 [503]))
        = (Inr resp, tr) \<and> invocations tr = 3
      \<and> Do (always_status 503) 2 = Inr resp \<and> StatusCode resp = 503) \<and>
   (\<exists>tr. DoRequestWithRetry exact_ops (always_status 400) (Some (test_policy 3 [503]))
        = (Inr (status_response 400), tr) \<and> invocations tr = 1)"
  using response_is_final [where fl = exact_ops and w = "always_status 503"
      and r = "test_policy 2 [503]" and res = "Inr (status_response 503)"
      and tr = "[Called, Closed (status_response 503), Slept 1000000,
                 Called, Closed (status_response 503), Slept 2000000, Called]"
      and k = 2 and resp = "status_response 503"
      and ?r2.0 = "test_policy 2 [503]" and ?w2.0 = "always_status 503"
      and ?r3.0 = "test_policy 3 [503]" and ?w3.0 = "always_status 400"
      and ?resp3.0 = "status_response 400"]
    run_always_503
  by (simp add: test_policy_def always_status_def status_response_def invocations_def)

subsection \<open>Cancellation\<close>

lemma cancelled_loop:
  "\<lbrakk>retry_loop fl r w (MaxRetries r + 1) st attempt = (ro, st');
    Cancelled d \<in> set (trace st'); \<forall>d'. Cancelled d' \<notin> set (trace st);
    int (invocations (trace st)) = sint attempt\<rbrakk> \<Longrightarrow>
   \<exists>e. ro = Some (Inl (External e)) \<and> CtxDone w (waits (trace st') - 1) = Some e
     \<and> last (trace st') = Cancelled d
     \<and> 1 \<le> invocations (trace st')
     \<and> int (invocations (trace st')) \<le> sint (MaxRetries r)"
proof (induction fl r w "MaxRetries r + 1" st attempt rule: retry_loop.induct)
  case (1 fl r w st attempt)
  show ?case
  proof (cases "attempt <s MaxRetries r + 1")
    case False
    then show ?thesis using "1.prems" by (simp add: loop_exit)
  next
    case entered: True
    have s: "sint (attempt + 1) = sint attempt + 1"
      using entered by (rule sint_succ_below)
    show ?thesis
    proof (cases rule: loop_body_cases [of attempt w st fl r])
      case (cancelled e)
      have "0 < sint attempt" using cancelled(1) by (simp add: word_sless_alt)
      then show ?thesis
        using "1.prems" loop_return [OF entered cancelled(3)] cancelled(2)
          entered_budget(3) [OF entered]
        by auto
    next
      case (not_retryable err)
      then show ?thesis
        using "1.prems" loop_return [OF entered not_retryable(4)]
        by (auto simp: after_wait_def split: if_splits)
    next
      case (exhausted err)
      then show ?thesis
        using "1.prems" loop_return [OF entered exhausted(5)]
        by (auto simp: after_wait_def split: if_splits)
    next
      case (response resp)
      then show ?thesis
        using "1.prems" loop_return [OF entered response(4)]
        by (auto simp: after_wait_def split: if_splits)
    next
      case (retry_error err)
      show ?thesis
      proof (rule "1.hyps" [OF entered retry_error(5)])
        show "retry_loop fl r w (MaxRetries r + 1)
            \<lparr>lastErr = Some (External err), trace = after_wait fl r st attempt @ [Called]\<rparr>
            (attempt + 1) = (ro, st')"
          using "1.prems"(1) loop_continue [OF entered retry_error(5)] by simp
        show "Cancelled d \<in> set (trace st')" by fact
        show "\<forall>d'. Cancelled d' \<notin> set (trace
            \<lparr>lastErr = Some (External err), trace = after_wait fl r st attempt @ [Called]\<rparr>)"
          using "1.prems"(3) by (simp add: after_wait_def)
        show "int (invocations (trace
            \<lparr>lastErr = Some (External err), trace = after_wait fl r st attempt @ [Called]\<rparr>))
            = sint (attempt + 1)"
          using "1.prems"(4) s by simp
      qed
    next
      case (retry_status resp)
      show ?thesis
      proof (rule "1.hyps" [OF entered retry_status(5)])
        show "retry_loop fl r w (MaxRetries r + 1)
            \<lparr>lastErr = Some (ServerError (StatusCode resp)),
             trace = after_wait fl r st attempt @ [Called, Closed resp]\<rparr>
            (attempt + 1) = (ro, st')"
          using "1.prems"(1) loop_continue [OF entered retry_status(5)] by simp
        show "Cancelled d \<in> set (trace st')" by fact
        show "\<forall>d'. Cancelled d' \<notin> set (trace
            \<lparr>lastErr = Some (ServerError (StatusCode resp)),
             trace = after_wait fl r st attempt @ [Called, Closed resp]\<rparr>)"
          using "1.prems"(3) by (simp add: after_wait_def)
        show "int (invocations (trace
            \<lparr>lastErr = Some (ServerError (StatusCode resp)),
             trace = after_wait fl r st attempt @ [Called, Closed resp]\<rparr>))
            = sint (attempt + 1)"
          using "1.prems"(4) s by (simp add: invocations_def after_wait_def)
      qed
    qed
  qed
qed

lemma waits_after_wait:
  "waits (after_wait fl r st attempt) = (if 0 <s attempt then Suc (waits (trace st)) else waits (trace st))"
  by (simp add: after_wait_def)

lemma waits_called_closed [simp]:
  "waits (tr @ [Called, Closed resp]) = waits tr"
  by (simp add: waits_def)

lemma after_wait_live:
  assumes "\<forall>j<waits (trace st). CtxDone w j = None"
    and "0 <s attempt \<longrightarrow> CtxDone w (waits (trace st)) = None"
  shows "\<forall>j<waits (after_wait fl r st attempt). CtxDone w j = None"
  using assms by (auto simp: waits_after_wait less_Suc_eq)

lemma select_loop:
  "\<lbrakk>retry_loop fl r w maxAttempts st attempt = (ro, st');
    \<forall>j<waits (trace st). CtxDone w j = None\<rbrakk> \<Longrightarrow>
   (\<forall>j. Suc j < waits (trace st') \<longrightarrow> CtxDone w j = None) \<and>
   (0 < waits (trace st') \<and> CtxDone w (waits (trace st') - 1) \<noteq> None
      \<longrightarrow> (\<exists>d. trace st' \<noteq> [] \<and> last (trace st') = Cancelled d))"
proof (induction fl r w maxAttempts st attempt rule: retry_loop.induct)
  case (1 fl r w maxAttempts st attempt)
  show ?case
  proof (cases "attempt <s maxAttempts")
    case False
    then have "st' = st" using "1.prems"(1) by (simp add: loop_exit)
    then show ?thesis using "1.prems"(2) by auto
  next
    case entered: True
    show ?thesis
    proof (cases rule: loop_body_cases [of attempt w st fl r])
      case (cancelled e)
      then show ?thesis
        using "1.prems" loop_return [OF entered cancelled(3)] by auto
    next
      case (not_retryable err)
      have "\<forall>j<waits (after_wait fl r st attempt). CtxDone w j = None"
        using "1.prems"(2) not_retryable(1) by (rule after_wait_live)
      then show ?thesis
        using "1.prems"(1) loop_return [OF entered not_retryable(4)] by auto
    next
      case (exhausted err)
      have "\<forall>j<waits (after_wait fl r st attempt). CtxDone w j = None"
        using "1.prems"(2) exhausted(1) by (rule after_wait_live)
      then show ?thesis
        using "1.prems"(1) loop_return [OF entered exhausted(5)] by auto
    next
      case (response resp)
      have "\<forall>j<waits (after_wait fl r st attempt). CtxDone w j = None"
        using "1.prems"(2) response(1) by (rule after_wait_live)
      then show ?thesis
        using "1.prems"(1) loop_return [OF entered response(4)] by auto
    next
      case (retry_error err)
      let ?st2 = "\<lparr>lastErr = Some (External err), trace = after_wait fl r st attempt @ [Called]\<rparr>"
      have run2: "retry_loop fl r w maxAttempts ?st2 (attempt + 1) = (ro, st')"
        using "1.prems"(1) loop_continue [OF entered retry_error(5)] by simp
      have "\<forall>j<waits (after_wait fl r st attempt). CtxDone w j = None"
        using "1.prems"(2) retry_error(1) by (rule after_wait_live)
      then have "\<forall>j<waits (trace ?st2). CtxDone w j = None" by simp
      with run2 show ?thesis by (rule "1.IH" [OF entered retry_error(5)])
    next
      case (retry_status resp)
      let ?st2 = "\<lparr>lastErr = Some (ServerError (StatusCode resp)),
          trace = after_wait fl r st attempt @ [Called, Closed resp]\<rparr>"
      have run2: "retry_loop fl r w maxAttempts ?st2 (attempt + 1) = (ro, st')"
        using "1.prems"(1) loop_continue [OF entered retry_status(5)] by simp
      have "\<forall>j<waits (after_wait fl r st attempt). CtxDone w j = None"
        using "1.prems"(2) retry_status(1) by (rule after_wait_live)
      then have "\<forall>j<waits (trace ?st2). CtxDone w j = None" by simp
      with run2 show ?thesis by (rule "1.IH" [OF entered retry_status(5)])
    qed
  qed
qed

lemma cancelled_run:
  assumes "DoRequestWithRetry fl w (Some r) = (res, tr)" and "Cancelled d \<in> set tr"
  shows "\<exists>e. res = Inl (External e) \<and> CtxDone w (waits tr - 1) = Some e \<and>
           last tr = Cancelled d \<and> 1 \<le> invocations tr \<and>
           int (invocations tr) < sint (MaxRetries r) + 1"
proof -
  obtain ro st' where
    loop: "retry_loop fl r w (MaxRetries r + 1) \<lparr>lastErr = None, trace = []\<rparr> 0 = (ro, st')"
    and tr: "trace st' = tr"
    and res: "case ro of Some res' \<Rightarrow> res = res' | None \<Rightarrow> True"
    using run_trace [OF assms(1)] by blast
  have "\<exists>e. ro = Some (Inl (External e)) \<and> CtxDone w (waits (trace st') - 1) = Some e
     \<and> last (trace st') = Cancelled d
     \<and> 1 \<le> invocations (trace st')
     \<and> int (invocations (trace st')) \<le> sint (MaxRetries r)"
    using loop by (rule cancelled_loop) (use assms(2) tr in simp_all)
  then show ?thesis using res tr by auto
qed

text \<open>
  Claim C5. If a run reaches a backoff wait during which the cancellation fires, so that
  its \<open>select\<close> takes the cancellation case (the run has more than \<open>j\<close> waits and the
  oracle answers \<open>Some e\<close> for wait \<open>j\<close>), the run returns the context's error \<open>e\<close> as it
  is, with no wrapper; that wait is the last event of the run, so no further call is made;
  and the number of calls made is at least 1 and strictly below \<open>MaxRetries + 1\<close>: the
  attempt budget was not exhausted.
\<close>

theorem cancellation_is_final:
  assumes run: "DoRequestWithRetry fl w (Some r) = (res, tr)"
    and reached: "j < waits tr" and fired: "CtxDone w j = Some e"
  shows "res = Inl (External e) \<and> waits tr = Suc j \<and> (\<exists>d. last tr = Cancelled d) \<and>
         1 \<le> invocations tr \<and> int (invocations tr) < sint (MaxRetries r) + 1"
proof -
  obtain ro st' where
    loop: "retry_loop fl r w (MaxRetries r + 1) \<lparr>lastErr = None, trace = []\<rparr> 0 = (ro, st')"
    and tr: "trace st' = tr"
    using run_trace [OF run] by blast
  have sel: "(\<forall>j. Suc j < waits tr \<longrightarrow> CtxDone w j = None) \<and>
     (0 < waits tr \<and> CtxDone w (waits tr - 1) \<noteq> None
        \<longrightarrow> (\<exists>d. tr \<noteq> [] \<and> last tr = Cancelled d))"
    using select_loop [OF loop] tr by simp
  have last_wait: "waits tr = Suc j"
  proof (rule ccontr)
    assume "waits tr \<noteq> Suc j"
    then have "Suc j < waits tr" using reached by simp
    then show False using sel fired by simp
  qed
  then obtain d where d: "tr \<noteq> []" "last tr = Cancelled d"
    using sel fired by auto
  then have "Cancelled d \<in> set tr" using last_in_set [of tr] by simp
  from cancelled_run [OF run this] show ?thesis
    using last_wait fired d(2) by auto
qed

text \<open>
  The subtest "context cancelled during retry": five retries allowed, the context is
  cancelled during the first wait, after one call.
\<close>

theorem cancellation_is_final_witness:
  "DoRequestWithRetry exact_ops cancelled_in_first_wait (Some slow_policy)
     = (Inl (External ''context canceled''),
        [Called, Closed (status_response 503), Cancelled 100000000]) \<and>
   waits [Called, Closed (status_response 503), Cancelled 100000000] = Suc 0 \<and>
   CtxDone cancelled_in_first_wait 0 = Some ''context canceled'' \<and>
   int (invocations [Called, Closed (status_response 503), Cancelled 100000000])
      < sint (MaxRetries slow_policy) + 1"
  using cancellation_is_final [OF run_cancelled, of 0 "''context canceled''"] run_cancelled
  by (simp add: cancelled_in_first_wait_def waits_def)

subsection \<open>Backoff waits\<close>

lemma backoff_ok_first:
  "backoff_ok fl r [Called]"
  "backoff_ok fl r [Called, Closed resp]"
  by (auto simp: backoff_ok_def less_Suc_eq nth_Cons')

lemma backoff_ok_closed:
  "backoff_ok fl r tr \<Longrightarrow> backoff_ok fl r (tr @ [Closed resp])"
  by (auto simp: backoff_ok_def nth_append less_Suc_eq nth_Cons' split: if_splits)

lemma backoff_ok_wait:
  assumes "backoff_ok fl r tr" "1 \<le> invocations tr" "int (invocations tr) \<le> sint (MaxRetries r)"
    and "d = CalculateRetryDelay fl r (of_nat (invocations tr) - 1)"
  shows "backoff_ok fl r (tr @ [Slept d, Called])"
    "backoff_ok fl r (tr @ [Cancelled d])"
  using assms by (auto simp: backoff_ok_def nth_append less_Suc_eq nth_Cons' split: if_splits)

lemma attempt_of_calls:
  fixes a :: "64 word"
  assumes "int n = sint a"
  shows "of_nat n = a"
proof -
  have "(of_nat n :: 64 word) = word_of_int (int n)" by simp
  also have "\<dots> = word_of_int (sint a)" using assms by simp
  also have "\<dots> = a" by simp
  finally show ?thesis .
qed

lemma backoff_ok_step:
  assumes ok: "backoff_ok fl r (trace st)" and calls: "int (invocations (trace st)) = sint attempt"
    and entered: "attempt <s MaxRetries r + 1"
    and start: "0 <s attempt \<or> trace st = []"
  shows "backoff_ok fl r (after_wait fl r st attempt @ [Called])"
    and "backoff_ok fl r (after_wait fl r st attempt @ [Called, Closed resp])"
    and "0 <s attempt \<Longrightarrow>
      backoff_ok fl r (trace st @ [Cancelled (CalculateRetryDelay fl r (attempt - 1))])"
proof -
  let ?d = "CalculateRetryDelay fl r (attempt - 1)"
  have w: "backoff_ok fl r (trace st @ [Slept ?d, Called])
      \<and> backoff_ok fl r (trace st @ [Cancelled ?d])"
    if pos: "0 <s attempt"
  proof -
    have "1 \<le> invocations (trace st)" using pos calls by (simp add: word_sless_alt)
    moreover have "int (invocations (trace st)) \<le> sint (MaxRetries r)"
      using calls entered_budget(3) [OF entered] by simp
    moreover have "of_nat (invocations (trace st)) = attempt"
      using calls by (rule attempt_of_calls)
    ultimately show ?thesis using ok backoff_ok_wait [of fl r "trace st" ?d] by simp
  qed
  show c: "backoff_ok fl r (after_wait fl r st attempt @ [Called])"
  proof (cases "0 <s attempt")
    case True
    then show ?thesis using w by (simp add: after_wait_def)
  next
    case False
    then show ?thesis using start backoff_ok_first(1) [of fl r] by (simp add: after_wait_def)
  qed
  show "backoff_ok fl r (after_wait fl r st attempt @ [Called, Closed resp])"
    using backoff_ok_closed [OF c, of resp] by simp
  show "0 <s attempt \<Longrightarrow> backoff_ok fl r (trace st @ [Cancelled ?d])"
    using w by simp
qed

lemma backoff_loop:
  "\<lbrakk>retry_loop fl r w (MaxRetries r + 1) st attempt = (ro, st');
    backoff_ok fl r (trace st); int (invocations (trace st)) = sint attempt;
    0 <s attempt \<or> trace st = []\<rbrakk> \<Longrightarrow>
   backoff_ok fl r (trace st')"
proof (induction fl r w "MaxRetries r + 1" st attempt rule: retry_loop.induct)
  case (1 fl r w st attempt)
  show ?case
  proof (cases "attempt <s MaxRetries r + 1")
    case False
    then show ?thesis using "1.prems" by (simp add: loop_exit)
  next
    case entered: True
    have s: "sint (attempt + 1) = sint attempt + 1"
      using entered by (rule sint_succ_below)
    have pos: "0 <s attempt + 1"
      using s "1.prems"(3) by (simp add: word_sless_alt)
    note step = backoff_ok_step [OF "1.prems"(2,3) entered "1.prems"(4)]
    show ?thesis
    proof (cases rule: loop_body_cases [of attempt w st fl r])
      case (cancelled e)
      then show ?thesis
        using "1.prems"(1) loop_return [OF entered cancelled(3)] step(3) by auto
    next
      case (not_retryable err)
      then show ?thesis
        using "1.prems"(1) loop_return [OF entered not_retryable(4)] step(1) by auto
    next
      case (exhausted err)
      then show ?thesis
        using "1.prems"(1) loop_return [OF entered exhausted(5)] step(1) by auto
    next
      case (response resp)
      then show ?thesis
        using "1.prems"(1) loop_return [OF entered response(4)] step(1) by auto
    next
      case (retry_error err)
      let ?st2 = "\<lparr>lastErr = Some (External err), trace = after_wait fl r st attempt @ [Called]\<rparr>"
      have run2: "retry_loop fl r w (MaxRetries r + 1) ?st2 (attempt + 1) = (ro, st')"
        using "1.prems"(1) loop_continue [OF entered retry_error(5)] by simp
      show ?thesis
      proof (rule "1.hyps" [OF entered retry_error(5) run2])
        show "backoff_ok fl r (trace ?st2)" using step(1) by simp
        show "int (invocations (trace ?st2)) = sint (attempt + 1)"
          using "1.prems"(3) s by simp
        show "0 <s attempt + 1 \<or> trace ?st2 = []" using pos by simp
      qed
    next
      case (retry_status resp)
      let ?st2 = "\<lparr>lastErr = Some (ServerError (StatusCode resp)),
          trace = after_wait fl r st attempt @ [Called, Closed resp]\<rparr>"
      have run2: "retry_loop fl r w (MaxRetries r + 1) ?st2 (attempt + 1) = (ro, st')"
        using "1.prems"(1) loop_continue [OF entered retry_status(5)] by simp
      show ?thesis
      proof (rule "1.hyps" [OF entered retry_status(5) run2])
        show "backoff_ok fl r (trace ?st2)" using step(2) by simp
        show "int (invocations (trace ?st2)) = sint (attempt + 1)"
          using "1.prems"(3) s by simp
        show "0 <s attempt + 1 \<or> trace ?st2 = []" using pos by simp
      qed
    qed
  qed
qed

text \<open>
  Claim C6. In every run, a backoff wait (ended by the timer or by the context) comes after
  at least one call, so never before the first attempt, and after at most \<open>MaxRetries\<close>
  calls; when \<open>k\<close> calls precede it, that is, when it is the wait before loop attempt \<open>k\<close>,
  its delay is \<open>CalculateRetryDelay (k - 1)\<close>, so that the wait before the first retry uses
  attempt index 0; and a wait that the timer ended is followed at once by the call of that
  attempt. Conversely every attempt but the first is preceded by its wait: the first call
  is the first event of the run, and a call with \<open>k \<ge> 1\<close> calls before it, the call of loop
  attempt \<open>k\<close>, comes immediately after a wait that the timer ended, of delay
  \<open>CalculateRetryDelay (k - 1)\<close>.
\<close>

theorem backoff_before_retries:
  assumes "DoRequestWithRetry fl w (Some r) = (res, tr)" and "i < length tr"
  shows "(tr ! i = Slept d \<or> tr ! i = Cancelled d \<longrightarrow>
            1 \<le> invocations (take i tr) \<and>
            int (invocations (take i tr)) \<le> sint (MaxRetries r) \<and>
            d = CalculateRetryDelay fl r (of_nat (invocations (take i tr)) - 1) \<and>
            (tr ! i = Slept d \<longrightarrow> Suc i < length tr \<and> tr ! Suc i = Called)) \<and>
         (tr ! i = Called \<longrightarrow>
            (if invocations (take i tr) = 0 then i = 0
             else 1 \<le> i \<and>
               tr ! (i - 1)
                 = Slept (CalculateRetryDelay fl r (of_nat (invocations (take i tr)) - 1))))"
proof -
  obtain ro st' where
    run: "retry_loop fl r w (MaxRetries r + 1) \<lparr>lastErr = None, trace = []\<rparr> 0 = (ro, st')"
    and tr: "trace st' = tr"
    using run_trace [OF assms(1)] by blast
  have "backoff_ok fl r (trace st')"
    using run by (rule backoff_loop) (simp_all add: backoff_ok_def)
  then show ?thesis using assms(2) unfolding tr backoff_ok_def by blast
qed

text \<open>
  The run against the server that always answers 503: its first wait, of 1ms, after one
  call, and its third call, which comes immediately after the wait of attempt index 1.
\<close>

theorem backoff_before_retries_witness:
  "[Called, Closed (status_response 503), Slept 1000000,
    Called, Closed (status_response 503), Slept 2000000, Called] ! 2 = Slept 1000000 \<and>
   1 \<le> invocations (take 2 [Called, Closed (status_response 503), Slept 1000000,
          Called, Closed (status_response 503), Slept 2000000, Called]) \<and>
   int (invocations (take 2 [Called, Closed (status_response 503), Slept 1000000,
          Called, Closed (status_response 503), Slept 2000000, Called]))
     \<le> sint (MaxRetries (test_policy 2 [503])) \<and>
   (1000000 :: Duration) = CalculateRetryDelay exact_ops (test_policy 2 [503])
      (of_nat (invocations (take 2 [Called, Closed (status_response 503), Slept 1000000,
          Called, Closed (status_response 503), Slept 2000000, Called])) - 1) \<and>
   [Called, Closed (status_response 503), Slept 1000000,
    Called, Closed (status_response 503), Slept 2000000, Called] ! Suc 2 = Called \<and>
   [Called, Closed (status_response 503), Slept 1000000,
    Called, Closed (status_response 503), Slept 2000000, Called] ! 6 = Called \<and>
   invocations (take 6 [Called, Closed (status_response 503), Slept 1000000,
          Called, Closed (status_response 503), Slept 2000000, Called]) = 2 \<and>
   [Called, Closed (status_response 503), Slept 1000000,
    Called, Closed (status_response 503), Slept 2000000, Called] ! (6 - 1)
     = Slept (CalculateRetryDelay exact_ops (test_policy 2 [503]) (of_nat 2 - 1))"
  using backoff_before_retries [OF run_always_503, of 2 1000000]
    backoff_before_retries [OF run_always_503, of 6 2000000]
  by (simp add: invocations_def)

subsection \<open>Two failures, then success\<close>

text \<open>
  Claim C7. When the first two calls return 503 responses and the third a 200 response,
  503 is the only retryable code, \<open>MaxRetries\<close> is 3 and the context is not cancelled during
  the two waits, the run calls the transport exactly 3 times, closes the two 503 responses
  and returns the 200 response with a nil error.
\<close>

theorem retry_then_success:
  assumes "MaxRetries r = 3" "set (RetryableStatusCodes r) = {503}"
    and "Do w 0 = Inr r0" "StatusCode r0 = 503"
    and "Do w 1 = Inr r1" "StatusCode r1 = 503"
    and "Do w 2 = Inr r2" "StatusCode r2 = 200"
    and "CtxDone w 0 = None" "CtxDone w 1 = None"
  shows "DoRequestWithRetry fl w (Some r) =
      (Inr r2, [Called, Closed r0, Slept (CalculateRetryDelay fl r 0),
                Called, Closed r1, Slept (CalculateRetryDelay fl r 1), Called]) \<and>
    invocations [Called, Closed r0, Slept (CalculateRetryDelay fl r 0),
                Called, Closed r1, Slept (CalculateRetryDelay fl r 1), Called] = 3"
proof -
  have "Do w (Suc 0) = Inr r1" "Do w (Suc (Suc 0)) = Inr r2" "CtxDone w (Suc 0) = None"
    using assms by (simp_all add: numeral_2_eq_2)
  then show ?thesis
    using assms(1,2,3,4,6,8,9)
    by (simp add: DoRequestWithRetry_def retry_loop.simps loop_body_def backoff_wait_def
        IsRetryableError_def code_in_list_iff Let_def invocations_def waits_def
        word_sless_alt word_sle_eq)
qed

text \<open>The subtest "retry on server error then success".\<close>

theorem retry_then_success_witness:
  "DoRequestWithRetry exact_ops unavailable_twice (Some (test_policy 3 [503])) =
     (Inr (status_response 200),
      [Called, Closed (status_response 503),
       Slept (CalculateRetryDelay exact_ops (test_policy 3 [503]) 0),
       Called, Closed (status_response 503),
       Slept (CalculateRetryDelay exact_ops (test_policy 3 [503]) 1), Called]) \<and>
   invocations [Called, Closed (status_response 503),
       Slept (CalculateRetryDelay exact_ops (test_policy 3 [503]) 0),
       Called, Closed (status_response 503),
       Slept (CalculateRetryDelay exact_ops (test_policy 3 [503]) 1), Called] = 3"
  using retry_then_success [of "test_policy 3 [503]" unavailable_twice "status_response 503"
      "status_response 503" "status_response 200" exact_ops]
  by (simp add: test_policy_def unavailable_twice_def status_response_def)

subsection \<open>The code after the loop\<close>

lemma post_loop_branch:
  "(\<forall>e. fst (DoRequestWithRetry fl w (Some r)) \<noteq> Inl (FailedAfterRetries e)) \<and>
   (fst (retry_loop fl r w (MaxRetries r + 1) \<lparr>lastErr = None, trace = []\<rparr> 0) = None
      \<longleftrightarrow> (MaxRetries r <s 0 \<or> MaxRetries r = MaxInt)) \<and>
   (fst (retry_loop fl r w (MaxRetries r + 1) \<lparr>lastErr = None, trace = []\<rparr> 0) = None
      \<longrightarrow> DoRequestWithRetry fl w (Some r) = (Inl NoAttemptsMade, []))"
proof (cases "0 <s MaxRetries r + 1")
  case True
  then obtain res st' where
    run: "retry_loop fl r w (MaxRetries r + 1) \<lparr>lastErr = None, trace = []\<rparr> 0 = (Some res, st')"
    using loop_entered_returns by blast
  then show ?thesis
    using True loop_result_not_post_loop [OF run] not_entered_iff [of "MaxRetries r"]
    by (auto simp: DoRequestWithRetry_def)
next
  case False
  then show ?thesis
    using not_entered_iff [of "MaxRetries r"] run_no_attempts [of r fl w]
    by (auto simp: loop_exit)
qed

text \<open>
  Claim C9. The branch after the loop that wraps \<open>lastErr\<close> as "failed after retries" is
  unreachable, and the loop is left through its condition only when \<open>MaxRetries < 0\<close>, with
  no call made, \<open>lastErr\<close> nil and the result "no attempts made". The first and the last
  part hold (\<open>post_loop_branch\<close>). The middle part fails at \<open>MaxRetries = MaxInt\<close>, which is
  not negative: \<open>maxAttempts\<close> wraps to the smallest \<open>int\<close>, the loop is left through its
  condition before the first iteration, and the run ends in the code after the loop
  although the server would have answered 200.
\<close>

theorem loop_skipped_at_MaxInt:
  "\<not> MaxRetries (test_policy MaxInt [503]) <s 0 \<and>
   retry_loop exact_ops (test_policy MaxInt [503]) (always_status 200)
     (MaxRetries (test_policy MaxInt [503]) + 1) \<lparr>lastErr = None, trace = []\<rparr> 0
     = (None, \<lparr>lastErr = None, trace = []\<rparr>) \<and>
   DoRequestWithRetry exact_ops (always_status 200) (Some (test_policy MaxInt [503]))
     = (Inl NoAttemptsMade, [])"
  using run_no_attempts [of "test_policy MaxInt [503]" exact_ops "always_status 200"]
    loop_exit [of 0 "MaxRetries (test_policy MaxInt [503]) + 1" exact_ops
      "test_policy MaxInt [503]" "always_status 200" "\<lparr>lastErr = None, trace = []\<rparr>"]
  by (simp add: test_policy_def MaxInt_def word_sless_alt)

end
